theory Spec2Isabelle
  imports Main "HOL-Library.Sublist" "HOL-Library.Char_ord" "HOL-Library.List_Lexorder"
    "HOL-Library.AList" "HOL-Library.Multiset" "HOL-Library.Word"
begin

unbundle bit_operations_syntax

section \<open>Go strings and the functions of package strings that main.go calls\<close>

text \<open>
  A Go string is a sequence of bytes; \<^typ>\<open>string\<close> (a list of 8-bit characters) is
  the same thing. The bytes that the source writes as escapes are named here.
\<close>

abbreviation (input) NL :: char where "NL \<equiv> CHR 0x0A"
abbreviation (input) CR :: char where "CR \<equiv> CHR 0x0D"
abbreviation (input) TAB :: char where "TAB \<equiv> CHR 0x09"
abbreviation (input) DQ :: char where "DQ \<equiv> CHR 0x22"
abbreviation (input) SQ :: char where "SQ \<equiv> CHR 0x27"
abbreviation (input) BSL :: char where "BSL \<equiv> CHR 0x5C"

text \<open>\<open>strings.HasPrefix\<close> is \<^const>\<open>prefix\<close>. \<open>strings.Contains\<close>:\<close>

fun Contains :: "string \<Rightarrow> string \<Rightarrow> bool" where
  "Contains [] sub = (sub = [])"
| "Contains (c # cs) sub = (prefix sub (c # cs) \<or> Contains cs sub)"

text \<open>\<open>strings.ContainsAny(s, chars)\<close>: some byte of \<open>chars\<close> occurs in \<open>s\<close> (the
  source passes ASCII characters only).\<close>

definition ContainsAny :: "string \<Rightarrow> string \<Rightarrow> bool" where
  "ContainsAny s chars = list_ex (\<lambda>c. c \<in> set chars) s"

text \<open>
  \<open>strings.TrimSpace\<close> removes leading and trailing white space as \<open>unicode.IsSpace\<close>
  defines it: the six ASCII characters below and the runes U+0085, U+00A0, U+1680,
  U+2000 to U+200A, U+2028, U+2029, U+202F, U+205F and U+3000. On bytes: UTF-8 is
  prefix-free and Go decodes only the shortest encoding of a rune (anything else yields
  U+FFFD, which is not white space), so the string starts (ends) with a white-space rune
  iff it starts (ends) with one of the encodings listed.
\<close>

definition asciiSpace :: "char \<Rightarrow> bool" where
  "asciiSpace c =
     (c = TAB \<or> c = NL \<or> c = CHR 0x0B \<or> c = CHR 0x0C \<or> c = CR \<or> c = CHR '' '')"

definition unicodeSpaces :: "string list" where
  "unicodeSpaces =
     [[CHR 0xC2, CHR 0x85], [CHR 0xC2, CHR 0xA0], [CHR 0xE1, CHR 0x9A, CHR 0x80],
      [CHR 0xE2, CHR 0x80, CHR 0x80], [CHR 0xE2, CHR 0x80, CHR 0x81],
      [CHR 0xE2, CHR 0x80, CHR 0x82], [CHR 0xE2, CHR 0x80, CHR 0x83],
      [CHR 0xE2, CHR 0x80, CHR 0x84], [CHR 0xE2, CHR 0x80, CHR 0x85],
      [CHR 0xE2, CHR 0x80, CHR 0x86], [CHR 0xE2, CHR 0x80, CHR 0x87],
      [CHR 0xE2, CHR 0x80, CHR 0x88], [CHR 0xE2, CHR 0x80, CHR 0x89],
      [CHR 0xE2, CHR 0x80, CHR 0x8A], [CHR 0xE2, CHR 0x80, CHR 0xA8],
      [CHR 0xE2, CHR 0x80, CHR 0xA9], [CHR 0xE2, CHR 0x80, CHR 0xAF],
      [CHR 0xE2, CHR 0x81, CHR 0x9F], [CHR 0xE3, CHR 0x80, CHR 0x80]]"

definition leadingSpace :: "string \<Rightarrow> nat" where
  \<comment> \<open>the width in bytes of the white-space rune the string starts with, 0 if none\<close>
  "leadingSpace s =
     (if s = [] then 0
      else if asciiSpace (hd s) then 1
      else (case find (\<lambda>e. prefix e s) unicodeSpaces of
              Some e \<Rightarrow> length e | None \<Rightarrow> 0))"

definition trailingSpace :: "string \<Rightarrow> nat" where
  \<comment> \<open>the width in bytes of the white-space rune the string ends with, 0 if none\<close>
  "trailingSpace s =
     (if s = [] then 0
      else if asciiSpace (last s) then 1
      else (case find (\<lambda>e. suffix e s) unicodeSpaces of
              Some e \<Rightarrow> length e | None \<Rightarrow> 0))"

function TrimLeft :: "string \<Rightarrow> string" where
  "TrimLeft s = (if leadingSpace s = 0 then s else TrimLeft (drop (leadingSpace s) s))"
  by pat_completeness auto
termination
proof (relation "measure length")
  fix s assume nz: "leadingSpace s \<noteq> 0"
  then have "s \<noteq> []" by (auto simp: leadingSpace_def)
  with nz show "(drop (leadingSpace s) s, s) \<in> measure length" by simp
qed simp

function TrimRight :: "string \<Rightarrow> string" where
  "TrimRight s =
     (if trailingSpace s = 0 then s else TrimRight (take (length s - trailingSpace s) s))"
  by pat_completeness auto
termination
proof (relation "measure length")
  fix s assume nz: "trailingSpace s \<noteq> 0"
  then have "s \<noteq> []" by (auto simp: trailingSpace_def)
  with nz show "(take (length s - trailingSpace s) s, s) \<in> measure length" by simp
qed simp

definition TrimSpace :: "string \<Rightarrow> string" where
  "TrimSpace s = TrimRight (TrimLeft s)"

text \<open>
  \<open>strings.Split(s, sep)\<close> and \<open>strings.SplitN(s, sep, 2)\<close>, for a separator of one byte
  (the source passes \<open>"\n"\<close> and \<open>"="\<close>): \<open>Split\<close> cuts at every separator and yields one
  piece more than there are separators; \<open>SplitN\<close> with \<open>n = 2\<close> cuts at the first
  separator only and yields the whole string alone when there is none.
\<close>

function Split :: "string \<Rightarrow> char \<Rightarrow> string list" where
  "Split s sep =
     (case dropWhile (\<lambda>c. c \<noteq> sep) s of
        [] \<Rightarrow> [s]
      | _ # rest \<Rightarrow> takeWhile (\<lambda>c. c \<noteq> sep) s # Split rest sep)"
  by pat_completeness auto
termination
proof (relation "measure (\<lambda>(s, sep). length s)")
  fix s :: string and sep x rest
  assume "dropWhile (\<lambda>c. c \<noteq> sep) s = x # rest"
  then have "length (x # rest) \<le> length s"
    by (metis length_dropWhile_le)
  then show "((rest, sep), (s, sep)) \<in> measure (\<lambda>(s, sep). length s)" by simp
qed simp

definition SplitN2 :: "string \<Rightarrow> char \<Rightarrow> string list" where
  "SplitN2 s sep =
     (case dropWhile (\<lambda>c. c \<noteq> sep) s of
        [] \<Rightarrow> [s]
      | _ # rest \<Rightarrow> [takeWhile (\<lambda>c. c \<noteq> sep) s, rest])"

text \<open>
  \<open>strings.ReplaceAll(s, old, new)\<close> replaces the occurrences of \<open>old\<close> from left to
  right, without overlap, in one pass. The source never passes an empty \<open>old\<close>; the model
  returns \<open>s\<close> for it.
\<close>

function ReplaceAll :: "string \<Rightarrow> string \<Rightarrow> string \<Rightarrow> string" where
  "ReplaceAll s old new =
     (if s = [] \<or> old = [] then s
      else if prefix old s then new @ ReplaceAll (drop (length old) s) old new
      else hd s # ReplaceAll (tl s) old new)"
  by pat_completeness auto
termination
  by (relation "measure (\<lambda>(s, old, new). length s)") auto

declare TrimLeft.simps [simp del] TrimRight.simps [simp del]
  Split.simps [simp del] ReplaceAll.simps [simp del]

section \<open>Errors\<close>

text \<open>One constructor per \<open>fmt.Errorf\<close> of the source; a wrapped error (\<open>%w\<close>) is an
  argument. A function returning Go's \<open>error\<close> returns \<open>error option\<close>, \<open>None\<close> being
  \<open>nil\<close>; a function returning \<open>(T, error)\<close> returns \<open>error + T\<close>.\<close>

datatype error =
    EmptyFilePath
  | PathTraversal
  | NullByteInFilePath
  | ParameterMapEmpty
  | InvalidEnvVarName string error
  | InvalidSSMPath string string error
  | InvalidAzureSecretName string string error
  | EmptyEnvVarName
  | EnvVarNameStartsWithDigit
  | EnvVarNameInvalidChar char
  | EmptySSMPath
  | SSMPathMustStartWithSlash
  | SSMPathInvalidChar char
  | SSMPathTraversal
  | SSMPathTooLong
  | EmptySecretName
  | SecretNameTooLong
  | SecretNameInvalidChar char
  | InvalidFilePath error
  | FailedToReadFile
  | FailedToParseJSON
  | InvalidParameterMap error
  | FailedToCreateFile
  | FailedToWriteToFile
  | InvalidLine nat string
  | AdapterFailure string
  | AzureAuthenticationFailed
  | AzureAuthorizationFailed
  | FailedToGetParameter string error
  | FailedToGetSecret string error
  | FailedToPutParameter error
  | FailedToPutParameterFor string error
  | FailedToSetSecret error
  | FailedToSetSecretFor string error
  | FailedToFetchSSM error
  | FailedToFetchAzure error
  | ErrorDuringPrompting error
  | FailedToWriteUpdatedEnv error

section \<open>Validation\<close>

type_synonym ParameterMap = "(string \<times> string) list"

text \<open>
  A Go \<open>map[string]string\<close> is an association list with pairwise distinct keys: the list
  order is the order in which one \<open>range\<close> over the map yields the entries (Go leaves it
  unspecified, so a theorem that holds for every list holds for every order). Lookup is
  \<^const>\<open>map_of\<close>, assignment \<open>m[k] = v\<close> is \<^const>\<open>AList.update\<close>.
\<close>

definition isUpper :: "char \<Rightarrow> bool" where
  "isUpper c = (CHR ''A'' \<le> c \<and> c \<le> CHR ''Z'')"

definition isLower :: "char \<Rightarrow> bool" where
  "isLower c = (CHR ''a'' \<le> c \<and> c \<le> CHR ''z'')"

definition isDigit :: "char \<Rightarrow> bool" where
  "isDigit c = (CHR ''0'' \<le> c \<and> c \<le> CHR ''9'')"

definition validateFilePath :: "string \<Rightarrow> error option" where
  "validateFilePath path =
     (if path = [] then Some EmptyFilePath
      else
        (let cleanPath = TrimSpace path in
         if Contains cleanPath ''..'' then Some PathTraversal
         else if Contains cleanPath [CHR 0x00] then Some NullByteInFilePath
         else None))"

text \<open>
  \<open>for i, char := range name\<close> yields the runes of \<open>name\<close> with their byte offsets. Every
  byte of a rune that is not ASCII is at least \<open>0x80\<close>, and so is every byte that is not
  valid UTF-8 (which yields U+FFFD); none of them is in a character class of the
  validators, all of which are ASCII. So each loop rejects at the first byte outside its
  class, and walking the bytes decides the same strings. The payload of an
  invalid-character error is the byte at which the offending rune starts.
\<close>

definition envVarNameChar :: "char \<Rightarrow> bool" where
  "envVarNameChar c = (isUpper c \<or> isLower c \<or> isDigit c \<or> c = CHR ''_'')"

fun validateEnvVarName_loop :: "nat \<Rightarrow> string \<Rightarrow> error option" where
  "validateEnvVarName_loop i [] = None"
| "validateEnvVarName_loop i (c # cs) =
     (if i = 0 \<and> isDigit c then Some EnvVarNameStartsWithDigit
      else if \<not> envVarNameChar c then Some (EnvVarNameInvalidChar c)
      else validateEnvVarName_loop (Suc i) cs)"

definition validateEnvVarName :: "string \<Rightarrow> error option" where
  "validateEnvVarName name =
     (if name = [] then Some EmptyEnvVarName else validateEnvVarName_loop 0 name)"

definition ssmPathChar :: "char \<Rightarrow> bool" where
  "ssmPathChar c = (isUpper c \<or> isLower c \<or> isDigit c \<or> c = CHR ''-'' \<or> c = CHR ''_''
     \<or> c = CHR ''.'' \<or> c = CHR ''/'')"

fun validateSSMPath_loop :: "string \<Rightarrow> error option" where
  "validateSSMPath_loop [] = None"
| "validateSSMPath_loop (c # cs) =
     (if \<not> ssmPathChar c then Some (SSMPathInvalidChar c) else validateSSMPath_loop cs)"

definition validateSSMPath :: "string \<Rightarrow> error option" where
  "validateSSMPath path =
     (if path = [] then Some EmptySSMPath
      else if \<not> prefix ''/'' path then Some SSMPathMustStartWithSlash
      else (case validateSSMPath_loop path of
              Some e \<Rightarrow> Some e
            | None \<Rightarrow>
                if Contains path ''..'' then Some SSMPathTraversal
                else if length path > 2048 then Some SSMPathTooLong
                else None))"

definition secretNameChar :: "char \<Rightarrow> bool" where
  "secretNameChar c = (isUpper c \<or> isLower c \<or> isDigit c \<or> c = CHR ''-'')"

fun validateAzureSecretName_loop :: "string \<Rightarrow> error option" where
  "validateAzureSecretName_loop [] = None"
| "validateAzureSecretName_loop (c # cs) =
     (if \<not> secretNameChar c then Some (SecretNameInvalidChar c)
      else validateAzureSecretName_loop cs)"

definition validateAzureSecretName :: "string \<Rightarrow> error option" where
  "validateAzureSecretName name =
     (if name = [] then Some EmptySecretName
      else if length name > 127 then Some SecretNameTooLong
      else validateAzureSecretName_loop name)"

fun validateParameterMap_loop :: "ParameterMap \<Rightarrow> error option" where
  "validateParameterMap_loop [] = None"
| "validateParameterMap_loop ((envKey, ssmPath) # rest) =
     (case validateEnvVarName envKey of
        Some e \<Rightarrow> Some (InvalidEnvVarName envKey e)
      | None \<Rightarrow>
          (case validateSSMPath ssmPath of
             Some e \<Rightarrow> Some (InvalidSSMPath ssmPath envKey e)
           | None \<Rightarrow> validateParameterMap_loop rest))"

definition validateParameterMap :: "ParameterMap \<Rightarrow> error option" where
  "validateParameterMap paramMap =
     (if length paramMap = 0 then Some ParameterMapEmpty
      else validateParameterMap_loop paramMap)"

fun validateAzureParameterMap_loop :: "ParameterMap \<Rightarrow> error option" where
  "validateAzureParameterMap_loop [] = None"
| "validateAzureParameterMap_loop ((envKey, secretName) # rest) =
     (case validateEnvVarName envKey of
        Some e \<Rightarrow> Some (InvalidEnvVarName envKey e)
      | None \<Rightarrow>
          (case validateAzureSecretName secretName of
             Some e \<Rightarrow> Some (InvalidAzureSecretName secretName envKey e)
           | None \<Rightarrow> validateAzureParameterMap_loop rest))"

definition validateAzureParameterMap :: "ParameterMap \<Rightarrow> error option" where
  "validateAzureParameterMap paramMap =
     (if length paramMap = 0 then Some ParameterMapEmpty
      else validateAzureParameterMap_loop paramMap)"

text \<open>The naming rules as the specification words them.\<close>

definition matches_local_name :: "string \<Rightarrow> bool" where
  \<comment> \<open>the regular expression \<open>^[A-Za-z_][A-Za-z0-9_]*$\<close>\<close>
  "matches_local_name s =
     (case s of [] \<Rightarrow> False
      | c # cs \<Rightarrow> (isUpper c \<or> isLower c \<or> c = CHR ''_'') \<and> list_all envVarNameChar cs)"

definition path_style_rule :: "string \<Rightarrow> bool" where
  \<comment> \<open>starts with \<open>/\<close>, characters in \<open>[A-Za-z0-9/_.-]\<close>, length at most 2048\<close>
  "path_style_rule s = (prefix ''/'' s \<and> list_all ssmPathChar s \<and> length s \<le> 2048)"

definition name_style_rule :: "string \<Rightarrow> bool" where
  \<comment> \<open>1 to 127 characters in \<open>[A-Za-z0-9-]\<close>\<close>
  "name_style_rule s = (1 \<le> length s \<and> length s \<le> 127 \<and> list_all secretNameChar s)"

section \<open>The env-file codec\<close>

type_synonym Snapshot = "(string \<times> string) list"

definition mapIndex :: "Snapshot \<Rightarrow> string \<Rightarrow> string" where
  \<comment> \<open>Go's \<open>m[k]\<close> as an expression: the zero value \<open>""\<close> for a missing key\<close>
  "mapIndex m k = (case map_of m k of Some v \<Rightarrow> v | None \<Rightarrow> [])"

definition needsQuoting :: "string \<Rightarrow> bool" where
  "needsQuoting v = ContainsAny v [CHR '' '', TAB, NL, CR, DQ, SQ, BSL]"

definition escapeValue :: "string \<Rightarrow> string" where
  "escapeValue v =
     (let v = ReplaceAll v [BSL] [BSL, BSL];
          v = ReplaceAll v [DQ] [BSL, DQ];
          v = ReplaceAll v [NL] [BSL, CHR ''n''];
          v = ReplaceAll v [CR] [BSL, CHR ''r''];
          v = ReplaceAll v [TAB] [BSL, CHR ''t'']
      in v)"

definition envLine :: "string \<Rightarrow> string \<Rightarrow> bool \<Rightarrow> string" where
  \<comment> \<open>the body of the write loop of \<open>writeEnvFile\<close>: what one \<open>Fprintf\<close> writes\<close>
  "envLine key v alwaysQuote =
     (let v = (if alwaysQuote then [DQ] @ escapeValue v @ [DQ]
               else if needsQuoting v then [DQ] @ escapeValue v @ [DQ]
               else v)
      in key @ ''='' @ v @ [NL])"

definition envLines :: "Snapshot \<Rightarrow> bool \<Rightarrow> string list" where
  \<comment> \<open>the lines \<open>writeEnvFile\<close> writes, in the order it writes them: keys sorted\<close>
  "envLines envVars alwaysQuote =
     map (\<lambda>key. envLine key (mapIndex envVars key) alwaysQuote) (sort (map fst envVars))"

definition serialize :: "Snapshot \<Rightarrow> bool \<Rightarrow> string" where
  \<comment> \<open>the content of the file after a \<open>writeEnvFile\<close> in which no write failed\<close>
  "serialize envVars alwaysQuote = concat (envLines envVars alwaysQuote)"

definition unescapeValue :: "string \<Rightarrow> string" where
  \<comment> \<open>the five \<open>ReplaceAll\<close> of \<open>readEnvFile\<close>, in its order\<close>
  "unescapeValue v =
     (let v = ReplaceAll v [BSL, BSL] [BSL];
          v = ReplaceAll v [BSL, DQ] [DQ];
          v = ReplaceAll v [BSL, CHR ''n''] [NL];
          v = ReplaceAll v [BSL, CHR ''r''] [CR];
          v = ReplaceAll v [BSL, CHR ''t''] [TAB]
      in v)"

definition removeQuotes :: "string \<Rightarrow> string" where
  \<comment> \<open>the block "Remove quotes if present" of \<open>readEnvFile\<close>\<close>
  "removeQuotes v =
     (if length v \<ge> 2 then
        (if (hd v = DQ \<and> last v = DQ) \<or> (hd v = SQ \<and> last v = SQ)
         then unescapeValue (butlast (tl v))
         else v)
      else v)"

text \<open>The loop of \<open>readEnvFile\<close> over the lines; \<open>i\<close> is the 0-based index of the line.\<close>

fun readEnvLines :: "nat \<Rightarrow> string list \<Rightarrow> Snapshot \<Rightarrow> error + Snapshot" where
  "readEnvLines i [] envVars = Inr envVars"
| "readEnvLines i (raw # rest) envVars =
     (let line = TrimSpace raw in
      if line = [] \<or> prefix ''#'' line then readEnvLines (Suc i) rest envVars
      else
        (let parts = SplitN2 line (CHR ''='') in
         if length parts \<noteq> 2 then Inl (InvalidLine (i + 1) line)
         else
           (let key = TrimSpace (parts ! 0);
                v = removeQuotes (TrimSpace (parts ! 1))
            in readEnvLines (Suc i) rest (AList.update key v envVars))))"

definition parseEnv :: "string \<Rightarrow> error + Snapshot" where
  \<comment> \<open>\<open>readEnvFile\<close> from the content of the file on\<close>
  "parseEnv data = readEnvLines 0 (Split data NL) []"

text \<open>
  Names for what the loop of \<open>readEnvFile\<close> does with one line: whether it skips the
  line, whether it rejects it, and the key and value it stores otherwise.
\<close>

definition skippedLine :: "string \<Rightarrow> bool" where
  "skippedLine raw = (TrimSpace raw = [] \<or> prefix ''#'' (TrimSpace raw))"

definition malformedLine :: "string \<Rightarrow> bool" where
  "malformedLine raw = (\<not> skippedLine raw \<and> CHR ''='' \<notin> set (TrimSpace raw))"

definition lineEntry :: "string \<Rightarrow> string \<times> string" where
  "lineEntry raw =
     (let line = TrimSpace raw
      in (TrimSpace (takeWhile (\<lambda>c. c \<noteq> CHR ''='') line),
          removeQuotes (TrimSpace (tl (dropWhile (\<lambda>c. c \<noteq> CHR ''='') line)))))"

definition entries :: "string list \<Rightarrow> (string \<times> string) list" where
  "entries ls = map lineEntry (filter (\<lambda>raw. \<not> skippedLine raw) ls)"

definition assignAll :: "Snapshot \<Rightarrow> (string \<times> string) list \<Rightarrow> Snapshot" where
  "assignAll m es = foldl (\<lambda>m (k, v). AList.update k v m) m es"

text \<open>
  The skip rule in the specification's words: a blank line (nothing but white space) or a
  line whose first character that is not white space is \<open>#\<close>. And the bytes of white
  space, for the proofs about trimming.
\<close>

definition blankOrComment :: "string \<Rightarrow> bool" where
  "blankOrComment raw = (TrimLeft raw = [] \<or> prefix ''#'' (TrimLeft raw))"

definition spaceEncoding :: "string \<Rightarrow> bool" where
  "spaceEncoding e = ((\<exists>c. asciiSpace c \<and> e = [c]) \<or> e \<in> set unicodeSpaces)"

definition spaceByte :: "char \<Rightarrow> bool" where
  "spaceByte c = (asciiSpace c \<or> (\<exists>e\<in>set unicodeSpaces. c \<in> set e))"

text \<open>
  For the round trip: what \<open>escapeValue\<close> writes for one byte; the values in which no
  backslash stands directly before \<open>n\<close>, \<open>r\<close> or \<open>t\<close>; what is left of the escape of one
  byte after each of the first four passes of \<open>unescapeValue\<close>; the condition under which
  a pass leaves a backslash that stands for itself alone; and the line written for a key
  when every value is quoted.
\<close>

definition escChar :: "char \<Rightarrow> string" where
  "escChar c =
     (if c = BSL then [BSL, BSL]
      else if c = DQ then [BSL, DQ]
      else if c = NL then [BSL, CHR ''n'']
      else if c = CR then [BSL, CHR ''r'']
      else if c = TAB then [BSL, CHR ''t'']
      else [c])"

fun noClash :: "string \<Rightarrow> bool" where
  "noClash (c # d # rest) =
     (\<not> (c = BSL \<and> (d = CHR ''n'' \<or> d = CHR ''r'' \<or> d = CHR ''t'')) \<and> noClash (d # rest))"
| "noClash s = True"

fun loneBackslashOK :: "(char \<Rightarrow> string) \<Rightarrow> char \<Rightarrow> string \<Rightarrow> bool" where
  "loneBackslashOK f x (c # d # rest) =
     ((f c = [BSL] \<longrightarrow> hd (f d) \<noteq> x) \<and> loneBackslashOK f x (d # rest))"
| "loneBackslashOK f x s = True"

definition unesc1 :: "char \<Rightarrow> string" where
  "unesc1 c = (if c = BSL then [BSL] else escChar c)"
definition unesc2 :: "char \<Rightarrow> string" where
  "unesc2 c = (if c = DQ then [DQ] else unesc1 c)"
definition unesc3 :: "char \<Rightarrow> string" where
  "unesc3 c = (if c = NL then [NL] else unesc2 c)"
definition unesc4 :: "char \<Rightarrow> string" where
  "unesc4 c = (if c = CR then [CR] else unesc3 c)"

definition quotedLine :: "Snapshot \<Rightarrow> string \<Rightarrow> string" where
  "quotedLine s k = k @ ''='' @ [DQ] @ escapeValue (mapIndex s k) @ [DQ]"

section \<open>The reconciliation engine\<close>

record Difference =
  Key :: string
  LocalVal :: string
  SSMVal :: string
  SSMPath :: string
  ExistsSSM :: bool

text \<open>
  The comparison loop of \<open>syncParameters\<close>, which \<open>syncParametersWithAzure\<close> repeats
  word for word: \<open>differences\<close> is the slice built so far.
\<close>

fun compareLoop ::
  "ParameterMap \<Rightarrow> Snapshot \<Rightarrow> Snapshot \<Rightarrow> Difference list \<Rightarrow> Difference list" where
  "compareLoop [] localEnvVars ssmEnvVars differences = differences"
| "compareLoop ((envKey, ssmPath) # rest) localEnvVars ssmEnvVars differences =
     (case map_of localEnvVars envKey of
        None \<Rightarrow>
          (case map_of ssmEnvVars envKey of
             Some ssmVal \<Rightarrow>
               compareLoop rest localEnvVars ssmEnvVars
                 (differences @ [\<lparr>Key = envKey, LocalVal = [], SSMVal = ssmVal,
                                   SSMPath = ssmPath, ExistsSSM = True\<rparr>])
           | None \<Rightarrow> compareLoop rest localEnvVars ssmEnvVars differences)
      | Some localVal \<Rightarrow>
          (case map_of ssmEnvVars envKey of
             None \<Rightarrow> compareLoop rest localEnvVars ssmEnvVars differences
           | Some ssmVal \<Rightarrow>
               if localVal \<noteq> ssmVal then
                 compareLoop rest localEnvVars ssmEnvVars
                   (differences @ [\<lparr>Key = envKey, LocalVal = localVal, SSMVal = ssmVal,
                                     SSMPath = ssmPath, ExistsSSM = True\<rparr>])
               else compareLoop rest localEnvVars ssmEnvVars differences))"

definition findDifferences :: "ParameterMap \<Rightarrow> Snapshot \<Rightarrow> Snapshot \<Rightarrow> Difference list" where
  "findDifferences paramMap localEnvVars ssmEnvVars =
     compareLoop paramMap localEnvVars ssmEnvVars []"

text \<open>
  \<open>sort.Slice\<close> with \<open>differences[i].Key < differences[j].Key\<close>: the keys of the
  differences are keys of the mapping, hence pairwise distinct, so every sorting
  algorithm yields the same list.
\<close>

definition sortDifferences :: "Difference list \<Rightarrow> Difference list" where
  "sortDifferences differences = sort_key Key differences"

definition applyUpdates :: "Snapshot \<Rightarrow> Difference list \<Rightarrow> Snapshot" where
  \<comment> \<open>\<open>for _, diff := range toUpdate { localEnvVars[diff.Key] = diff.SSMVal }\<close>\<close>
  "applyUpdates localEnvVars toUpdate =
     foldl (\<lambda>m diff. AList.update (Key diff) (SSMVal diff) m) localEnvVars toUpdate"

section \<open>The world: files, terminal, remote store\<close>

text \<open>
  The state the program acts on: the files (mode and content, by path), the umask of the
  process, what is typed at the terminal, what has been printed and the calls made to the
  remote store. \<open>stdin\<close> lists the outcomes of the successive \<open>fmt.Scanln(&response)\<close>:
  the word read, or \<open>None\<close> when the call returns an error (an empty line, a second word,
  the end of the input); once the list is used up every call fails, as it does at the end
  of the input. \<open>stdout\<close> records each message by its kind and arguments, not as text
  (the messages of the two backends differ in their nouns only).

  What the program does not decide is in \<open>Env\<close>: the answers of the remote store (the
  SDK clients; the statuses 401 and 403 are told apart because the Azure functions do
  so, and \<open>NilValue\<close> is a successful answer without a value), \<open>json.Unmarshal\<close> into the
  mapping, the failures of file operations, and the failure of \<open>createAzureClient\<close> or
  \<open>loadAWSConfig\<close>. The answer of the store depends on the arguments of the call only.
\<close>

record File =
  perm :: "32 word"
  content :: string

datatype Call = Fetch string | Store string string

datatype Output =
    Print string
  | PrintError string error
  | WarnNotFound string
  | InSync
  | FoundDifferences nat
  | ShowDifference nat string "string option" string string
  | ForceMode nat
  | Prompt string nat nat
  | InvalidInput
  | NoneSelected
  | Updated string nat
  | Pushed nat
  | PushedSingle string string
  | Generated string nat

record World =
  files :: "string \<rightharpoonup> File"
  umask :: "32 word"
  stdin :: "string option list"
  stdout :: "Output list"
  calls :: "Call list"

datatype Failure = Unauthorized | Forbidden | OtherFailure string

datatype FetchResult = Value string | NilValue | NotFound | FetchFailed Failure

record Env =
  fetch :: "string \<Rightarrow> FetchResult"
  store :: "string \<Rightarrow> string \<Rightarrow> Failure option"
  unmarshal :: "string \<Rightarrow> ParameterMap option"
  readError :: "string \<Rightarrow> bool"
  openError :: "string \<Rightarrow> bool"
  writeError :: "string \<Rightarrow> nat \<Rightarrow> bool"
  clientError :: bool

definition say :: "Output \<Rightarrow> World \<Rightarrow> World" where
  "say msg w = w\<lparr>stdout := stdout w @ [msg]\<rparr>"

definition called :: "Call \<Rightarrow> World \<Rightarrow> World" where
  "called c w = w\<lparr>calls := calls w @ [c]\<rparr>"

definition failureError :: "Failure \<Rightarrow> error" where
  "failureError f =
     (case f of Unauthorized \<Rightarrow> AdapterFailure ''401''
      | Forbidden \<Rightarrow> AdapterFailure ''403''
      | OtherFailure s \<Rightarrow> AdapterFailure s)"

definition checkAzureAuthError :: "Failure \<Rightarrow> error option" where
  "checkAzureAuthError f =
     (case f of Unauthorized \<Rightarrow> Some AzureAuthenticationFailed
      | Forbidden \<Rightarrow> Some AzureAuthorizationFailed
      | OtherFailure s \<Rightarrow> None)"

fun fetchParameters_loop ::
  "Env \<Rightarrow> ParameterMap \<Rightarrow> Snapshot \<Rightarrow> World \<Rightarrow> (error + Snapshot) \<times> World" where
  "fetchParameters_loop env [] envVars w = (Inr envVars, w)"
| "fetchParameters_loop env ((envKey, ssmPath) # rest) envVars w =
     (let w = called (Fetch ssmPath) w in
      case fetch env ssmPath of
        NotFound \<Rightarrow> fetchParameters_loop env rest envVars (say (WarnNotFound envKey) w)
      | FetchFailed f \<Rightarrow> (Inl (FailedToGetParameter envKey (failureError f)), w)
      | Value v \<Rightarrow> fetchParameters_loop env rest (AList.update envKey v envVars) w
      | NilValue \<Rightarrow> fetchParameters_loop env rest envVars w)"

definition fetchParameters ::
  "Env \<Rightarrow> ParameterMap \<Rightarrow> World \<Rightarrow> (error + Snapshot) \<times> World" where
  "fetchParameters env paramMap w = fetchParameters_loop env paramMap [] w"

fun fetchParametersFromAzure_loop ::
  "Env \<Rightarrow> ParameterMap \<Rightarrow> Snapshot \<Rightarrow> World \<Rightarrow> (error + Snapshot) \<times> World" where
  "fetchParametersFromAzure_loop env [] envVars w = (Inr envVars, w)"
| "fetchParametersFromAzure_loop env ((envKey, secretName) # rest) envVars w =
     (let w = called (Fetch secretName) w in
      case fetch env secretName of
        FetchFailed f \<Rightarrow>
          (case checkAzureAuthError f of
             Some authErr \<Rightarrow> (Inl authErr, w)
           | None \<Rightarrow> (Inl (FailedToGetSecret envKey (failureError f)), w))
      | NotFound \<Rightarrow> fetchParametersFromAzure_loop env rest envVars (say (WarnNotFound envKey) w)
      | Value v \<Rightarrow> fetchParametersFromAzure_loop env rest (AList.update envKey v envVars) w
      | NilValue \<Rightarrow> fetchParametersFromAzure_loop env rest envVars w)"

definition fetchParametersFromAzure ::
  "Env \<Rightarrow> ParameterMap \<Rightarrow> World \<Rightarrow> (error + Snapshot) \<times> World" where
  "fetchParametersFromAzure env paramMap w = fetchParametersFromAzure_loop env paramMap [] w"

fun pushParameters ::
  "Env \<Rightarrow> Snapshot \<Rightarrow> ParameterMap \<Rightarrow> World \<Rightarrow> error option \<times> World" where
  "pushParameters env envVars [] w = (None, w)"
| "pushParameters env envVars ((envKey, ssmPath) # rest) w =
     (case map_of envVars envKey of
        None \<Rightarrow> pushParameters env envVars rest w
      | Some v \<Rightarrow>
          (let w = called (Store ssmPath v) w in
           case store env ssmPath v of
             Some f \<Rightarrow> (Some (FailedToPutParameterFor envKey (failureError f)), w)
           | None \<Rightarrow> pushParameters env envVars rest w))"

fun pushParametersToAzure ::
  "Env \<Rightarrow> Snapshot \<Rightarrow> ParameterMap \<Rightarrow> World \<Rightarrow> error option \<times> World" where
  "pushParametersToAzure env envVars [] w = (None, w)"
| "pushParametersToAzure env envVars ((envKey, secretName) # rest) w =
     (case map_of envVars envKey of
        None \<Rightarrow> pushParametersToAzure env envVars rest w
      | Some v \<Rightarrow>
          (let w = called (Store secretName v) w in
           case store env secretName v of
             Some f \<Rightarrow>
               (case checkAzureAuthError f of
                  Some authErr \<Rightarrow> (Some authErr, w)
                | None \<Rightarrow> (Some (FailedToSetSecretFor envKey (failureError f)), w))
           | None \<Rightarrow> pushParametersToAzure env envVars rest w))"

definition pushSingleParameter ::
  "Env \<Rightarrow> string \<Rightarrow> string \<Rightarrow> string \<Rightarrow> World \<Rightarrow> error option \<times> World" where
  "pushSingleParameter env key v ssmPath w =
     (let w = called (Store ssmPath v) w in
      case store env ssmPath v of
        Some f \<Rightarrow> (Some (FailedToPutParameter (failureError f)), w)
      | None \<Rightarrow> (None, w))"

definition pushSingleParameterToAzure ::
  "Env \<Rightarrow> string \<Rightarrow> string \<Rightarrow> string \<Rightarrow> World \<Rightarrow> error option \<times> World" where
  "pushSingleParameterToAzure env key v secretName w =
     (let w = called (Store secretName v) w in
      case store env secretName v of
        Some f \<Rightarrow>
          (case checkAzureAuthError f of
             Some authErr \<Rightarrow> (Some authErr, w)
           | None \<Rightarrow> (Some (FailedToSetSecret (failureError f)), w))
      | None \<Rightarrow> (None, w))"

section \<open>File operations\<close>

text \<open>
  \<open>os.OpenFile(filename, O_CREATE|O_WRONLY|O_TRUNC, 0600)\<close>: when the file does not exist
  it is created, empty, with mode \<open>0600\<close> less the bits of the process's umask; when it
  exists it is truncated and keeps the mode it has (the \<open>perm\<close> argument of \<open>OpenFile\<close> is
  used only for a file that \<open>O_CREATE\<close> creates). \<open>None\<close> when the call fails.
\<close>

definition openFile :: "Env \<Rightarrow> string \<Rightarrow> World \<Rightarrow> World option" where
  "openFile env filename w =
     (if openError env filename then None
      else Some (w\<lparr>files := (files w)(filename \<mapsto>
             (case files w filename of
                Some f \<Rightarrow> f\<lparr>content := []\<rparr>
              | None \<Rightarrow> \<lparr>perm = 0x180 AND NOT (umask w), content = []\<rparr>))\<rparr>))"

definition appendFile :: "string \<Rightarrow> string \<Rightarrow> World \<Rightarrow> World" where
  "appendFile filename text w =
     w\<lparr>files := (files w)(filename \<mapsto>
           (case files w filename of
              Some f \<Rightarrow> f\<lparr>content := content f @ text\<rparr>
            | None \<Rightarrow> \<lparr>perm = 0x180 AND NOT (umask w), content = text\<rparr>))\<rparr>"

text \<open>The write loop of \<open>writeEnvFile\<close>: \<open>n\<close> counts the \<open>Fprintf\<close> calls made so far.\<close>

fun writeLines :: "Env \<Rightarrow> string \<Rightarrow> nat \<Rightarrow> string list \<Rightarrow> World \<Rightarrow> error option \<times> World" where
  "writeLines env filename n [] w = (None, w)"
| "writeLines env filename n (l # ls) w =
     (if writeError env filename n then (Some FailedToWriteToFile, w)
      else writeLines env filename (Suc n) ls (appendFile filename l w))"

definition writeEnvFile ::
  "Env \<Rightarrow> string \<Rightarrow> Snapshot \<Rightarrow> bool \<Rightarrow> World \<Rightarrow> error option \<times> World" where
  "writeEnvFile env filename envVars alwaysQuote w =
     (case validateFilePath filename of
        Some e \<Rightarrow> (Some (InvalidFilePath e), w)
      | None \<Rightarrow>
          (case openFile env filename w of
             None \<Rightarrow> (Some FailedToCreateFile, w)
           | Some w \<Rightarrow> writeLines env filename 0 (envLines envVars alwaysQuote) w))"

definition readFile :: "Env \<Rightarrow> string \<Rightarrow> World \<Rightarrow> string option" where
  \<comment> \<open>\<open>os.ReadFile\<close>: the content of the file, \<open>None\<close> when it is missing or unreadable\<close>
  "readFile env filename w =
     (if readError env filename then None else map_option content (files w filename))"

definition readEnvFile :: "Env \<Rightarrow> string \<Rightarrow> World \<Rightarrow> error + Snapshot" where
  "readEnvFile env filename w =
     (case validateFilePath filename of
        Some e \<Rightarrow> Inl (InvalidFilePath e)
      | None \<Rightarrow>
          (case readFile env filename w of
             None \<Rightarrow> Inl FailedToReadFile
           | Some data \<Rightarrow> parseEnv data))"

definition loadParameterMapRaw :: "Env \<Rightarrow> string \<Rightarrow> World \<Rightarrow> error + ParameterMap" where
  "loadParameterMapRaw env filename w =
     (case validateFilePath filename of
        Some e \<Rightarrow> Inl (InvalidFilePath e)
      | None \<Rightarrow>
          (case readFile env filename w of
             None \<Rightarrow> Inl FailedToReadFile
           | Some data \<Rightarrow>
               (case unmarshal env data of
                  None \<Rightarrow> Inl FailedToParseJSON
                | Some paramMap \<Rightarrow> Inr paramMap)))"

definition loadParameterMap :: "Env \<Rightarrow> string \<Rightarrow> World \<Rightarrow> error + ParameterMap" where
  "loadParameterMap env filename w =
     (case loadParameterMapRaw env filename w of
        Inl e \<Rightarrow> Inl e
      | Inr paramMap \<Rightarrow>
          (case validateParameterMap paramMap of
             Some e \<Rightarrow> Inl (InvalidParameterMap e)
           | None \<Rightarrow> Inr paramMap))"

section \<open>Interactive selection\<close>

text \<open>
  \<open>strings.ToLower\<close>, on bytes: the capital letters of ASCII become small. Go also maps
  the capital letters beyond ASCII; but the source only compares the result with eight
  ASCII words, and a response with a byte beyond ASCII is none of them before the
  mapping or after it (the runes beyond ASCII that become ASCII letters are U+0130 and
  U+212A, which become \<open>i\<close> and \<open>k\<close>, and no word has these letters).

  \<open>promptLoop\<close> is the loop nest of \<open>promptForUpdates\<close>: \<open>i\<close> is the index of the outer
  loop, and a recursive call with the same \<open>i\<close> is the next round of the inner loop. The
  result is \<open>None\<close> when the loop never ends: when the input is used up every \<open>Scanln\<close>
  fails, the response is empty, and the inner loop prints "Invalid input" and asks
  again, for ever.
\<close>

definition ToLower :: "string \<Rightarrow> string" where
  "ToLower s = map (\<lambda>c. if isUpper c then char_of (of_char c + (32 :: nat)) else c) s"

definition scanResponse :: "string option \<Rightarrow> string" where
  "scanResponse r = ToLower (TrimSpace (case r of None \<Rightarrow> [] | Some token \<Rightarrow> token))"

function promptLoop ::
  "Difference list \<Rightarrow> nat \<Rightarrow> Difference list \<Rightarrow> World \<Rightarrow> (Difference list \<times> World) option"
  where
  "promptLoop differences i toUpdate w =
     (if i \<ge> length differences then Some (toUpdate, w)
      else
        (let diff = differences ! i;
             w = say (Prompt (Key diff) (i + 1) (length differences)) w
         in case stdin w of
              [] \<Rightarrow> None
            | r # rs \<Rightarrow>
                (let response = scanResponse r;
                     w = w\<lparr>stdin := rs\<rparr>
                 in if response = ''y'' \<or> response = ''yes''
                      then promptLoop differences (i + 1) (toUpdate @ [diff]) w
                    else if response = ''n'' \<or> response = ''no''
                      then promptLoop differences (i + 1) toUpdate w
                    else if response = ''a'' \<or> response = ''all''
                      then Some (toUpdate @ drop i differences, w)
                    else if response = ''c'' \<or> response = ''cancel''
                      then Some (toUpdate, w)
                    else promptLoop differences i toUpdate (say InvalidInput w))))"
  by pat_completeness auto
termination
  by (relation "measure (\<lambda>(differences, i, toUpdate, w). length (stdin w))")
    (auto simp: say_def)

definition promptForUpdates :: "Difference list \<Rightarrow> World \<Rightarrow> (Difference list \<times> World) option" where
  "promptForUpdates differences w = promptLoop differences 0 [] w"

declare promptLoop.simps [simp del]

section \<open>Sync\<close>

fun showDifferences :: "nat \<Rightarrow> Difference list \<Rightarrow> World \<Rightarrow> World" where
  "showDifferences i [] w = w"
| "showDifferences i (diff # rest) w =
     showDifferences (Suc i) rest
       (say (ShowDifference (i + 1) (Key diff)
              (if LocalVal diff = [] then None else Some (LocalVal diff))
              (SSMVal diff) (SSMPath diff)) w)"

text \<open>
  \<open>syncParameters\<close> and \<open>syncParametersWithAzure\<close> are the same text but for the function
  that fetches, the wrapper of its error and the nouns of the messages; \<open>syncWith\<close> is
  that text. The result is \<open>None\<close> when the call never returns (see \<open>promptLoop\<close>).
  \<open>promptForUpdates\<close> never returns an error, so the source's branch for one is dead.
  One list stands for both ranges over the mapping, the one that fetches and the one
  that compares; the differences are sorted before they are used, and the sorted list is
  the same for every order (\<open>sortDifferences_order_independent\<close>).
\<close>

definition syncWith ::
  "(Env \<Rightarrow> ParameterMap \<Rightarrow> World \<Rightarrow> (error + Snapshot) \<times> World) \<Rightarrow> (error \<Rightarrow> error) \<Rightarrow>
   Env \<Rightarrow> Snapshot \<Rightarrow> ParameterMap \<Rightarrow> string \<Rightarrow> bool \<Rightarrow> bool \<Rightarrow> World \<Rightarrow>
   (error option \<times> World) option" where
  "syncWith fetchAll wrap env localEnvVars paramMap envFile force quotes w =
     (case fetchAll env paramMap w of
        (Inl e, w) \<Rightarrow> Some (Some (wrap e), w)
      | (Inr ssmEnvVars, w) \<Rightarrow>
          (let differences = findDifferences paramMap localEnvVars ssmEnvVars in
           if length differences = 0 then Some (None, say InSync w)
           else
             (let differences = sortDifferences differences;
                  w = say (FoundDifferences (length differences)) w;
                  w = showDifferences 0 differences w
              in case (if force then Some (differences, say (ForceMode (length differences)) w)
                       else promptForUpdates differences w) of
                   None \<Rightarrow> None
                 | Some (toUpdate, w) \<Rightarrow>
                     if length toUpdate = 0 then Some (None, say NoneSelected w)
                     else
                       (case writeEnvFile env envFile (applyUpdates localEnvVars toUpdate)
                               quotes w of
                          (Some e, w) \<Rightarrow> Some (Some (FailedToWriteUpdatedEnv e), w)
                        | (None, w) \<Rightarrow>
                            Some (None, say (Updated envFile (length toUpdate)) w)))))"

definition syncParameters ::
  "Env \<Rightarrow> Snapshot \<Rightarrow> ParameterMap \<Rightarrow> string \<Rightarrow> bool \<Rightarrow> bool \<Rightarrow> World \<Rightarrow>
   (error option \<times> World) option" where
  "syncParameters = syncWith fetchParameters FailedToFetchSSM"

definition syncParametersWithAzure ::
  "Env \<Rightarrow> Snapshot \<Rightarrow> ParameterMap \<Rightarrow> string \<Rightarrow> bool \<Rightarrow> bool \<Rightarrow> World \<Rightarrow>
   (error option \<times> World) option" where
  "syncParametersWithAzure = syncWith fetchParametersFromAzure FailedToFetchAzure"

section \<open>The specification's words, for comparison\<close>

text \<open>
  The interactive protocol: the decision a response stands for, and \<open>select\<close>, the
  selection that a list of decisions produces from the differences still pending and
  those accepted so far.
\<close>

datatype Decision = Yes | No | All | Cancel | Other

definition decide :: "string option \<Rightarrow> Decision" where
  "decide r =
     (let response = scanResponse r in
      if response = ''y'' \<or> response = ''yes'' then Yes
      else if response = ''n'' \<or> response = ''no'' then No
      else if response = ''a'' \<or> response = ''all'' then All
      else if response = ''c'' \<or> response = ''cancel'' then Cancel
      else Other)"

fun select :: "Difference list \<Rightarrow> Difference list \<Rightarrow> Decision list \<Rightarrow> Difference list option"
  where
  "select [] accepted ds = Some accepted"
| "select (d # pending) accepted [] = None"
| "select (d # pending) accepted (Yes # ds) = select pending (accepted @ [d]) ds"
| "select (d # pending) accepted (No # ds) = select pending accepted ds"
| "select (d # pending) accepted (All # ds) = Some (accepted @ d # pending)"
| "select (d # pending) accepted (Cancel # ds) = Some accepted"
| "select (d # pending) accepted (Other # ds) = select (d # pending) accepted ds"

text \<open>
  For push: the store calls for the mapped entries whose name the local snapshot
  contains, in iteration order; a list of calls cut after the first store that fails;
  whether a call succeeds.
\<close>

definition expectedStores :: "Snapshot \<Rightarrow> ParameterMap \<Rightarrow> Call list" where
  "expectedStores envVars paramMap =
     concat (map (\<lambda>(name, identifier).
                    case map_of envVars name of None \<Rightarrow> [] | Some v \<Rightarrow> [Store identifier v])
                 paramMap)"

fun untilFailure :: "Env \<Rightarrow> Call list \<Rightarrow> Call list" where
  "untilFailure env [] = []"
| "untilFailure env (Fetch identifier # cs) = Fetch identifier # untilFailure env cs"
| "untilFailure env (Store identifier v # cs) =
     Store identifier v # (if store env identifier v = None then untilFailure env cs else [])"

text \<open>
  For sync: what the comparison loop records for one entry of the mapping, and the
  records of a list of differences that are about one name.
\<close>

definition entryDifference :: "Snapshot \<Rightarrow> Snapshot \<Rightarrow> string \<times> string \<Rightarrow> Difference list" where
  "entryDifference localEnvVars ssmEnvVars e = compareLoop [e] localEnvVars ssmEnvVars []"

definition differencesFor :: "string \<Rightarrow> Difference list \<Rightarrow> Difference list" where
  "differencesFor name differences = filter (\<lambda>d. Key d = name) differences"

definition storeSucceeds :: "Env \<Rightarrow> Call \<Rightarrow> bool" where
  "storeSucceeds env c = (case c of Store identifier v \<Rightarrow> store env identifier v = None
                          | Fetch identifier \<Rightarrow> True)"

section \<open>The command line\<close>

text \<open>
  \<open>main\<close> returns the exit code and the world: the code of \<open>os.Exit\<close> where the source
  calls it, 0 where \<open>main\<close> returns; \<open>None\<close> when it never returns. The banner and the
  usage text are one message each. \<open>mainAzure\<close> and \<open>mainAWS\<close> are the two halves of
  \<open>main\<close> after the client has been created.
\<close>

record Flags =
  flagMap :: string
  flagEnv :: string
  flagProfile :: string
  flagRegion :: string
  flagVersion :: bool
  flagPush :: bool
  flagSync :: bool
  flagForce :: bool
  flagKey :: string
  flagValue :: string
  flagSsmPath :: string
  flagSecretName :: string
  flagQuotes :: bool
  flagAzure :: bool
  flagVaultName :: string

definition usage :: "string \<Rightarrow> World \<Rightarrow> World" where
  \<comment> \<open>an error line, then the usage text\<close>
  "usage msg w = say (Print ''Usage:'') (say (Print msg) w)"

definition modeValidation :: "Flags \<Rightarrow> string option" where
  \<comment> \<open>the block "Validate flags based on mode" of \<open>main\<close>: the error it prints, if any\<close>
  "modeValidation fl =
     (if flagPush fl then
        (if flagKey fl \<noteq> [] \<or> flagValue fl \<noteq> [] \<or> flagSsmPath fl \<noteq> []
            \<or> flagSecretName fl \<noteq> [] then
           (if flagAzure fl then
              (if flagKey fl = [] \<or> flagValue fl = [] \<or> flagSecretName fl = []
               then Some ''Error: For Azure single parameter push, all of --key, --value, and --secret-name are required''
               else None)
            else
              (if flagKey fl = [] \<or> flagValue fl = [] \<or> flagSsmPath fl = []
               then Some ''Error: For AWS single parameter push, all of --key, --value, and --ssm-path are required''
               else None))
         else
           (if flagMap fl = [] \<or> flagEnv fl = []
            then Some ''Error: For file-based push, both --map and --env are required''
            else None))
      else if flagSync fl then
        (if flagMap fl = [] \<or> flagEnv fl = []
         then Some ''Error: For sync mode, both --map and --env are required''
         else None)
      else
        (if flagMap fl = [] then Some ''Error: --map flag is required'' else None))"

definition mainAzure :: "Env \<Rightarrow> Flags \<Rightarrow> World \<Rightarrow> (nat \<times> World) option" where
  "mainAzure env fl w =
     (if flagPush fl then
        (if flagKey fl \<noteq> [] then
           (case validateEnvVarName (flagKey fl) of
              Some e \<Rightarrow> Some (1, say (PrintError ''Error: invalid environment variable name'' e) w)
            | None \<Rightarrow>
           (case validateAzureSecretName (flagSecretName fl) of
              Some e \<Rightarrow> Some (1, say (PrintError ''Error: invalid Azure secret name'' e) w)
            | None \<Rightarrow>
           (case pushSingleParameterToAzure env (flagKey fl) (flagValue fl) (flagSecretName fl) w of
              (Some e, w) \<Rightarrow> Some (1, say (PrintError ''Error pushing secret'' e) w)
            | (None, w) \<Rightarrow> Some (0, say (PushedSingle (flagKey fl) (flagSecretName fl)) w))))
         else
           (case loadParameterMapRaw env (flagMap fl) w of
              Inl e \<Rightarrow> Some (1, say (PrintError ''Error loading parameter map'' e) w)
            | Inr paramMap \<Rightarrow>
           (case validateAzureParameterMap paramMap of
              Some e \<Rightarrow> Some (1, say (PrintError ''Error: invalid parameter map'' e) w)
            | None \<Rightarrow>
           (case readEnvFile env (flagEnv fl) w of
              Inl e \<Rightarrow> Some (1, say (PrintError ''Error reading .env file'' e) w)
            | Inr envVars \<Rightarrow>
           (case pushParametersToAzure env envVars paramMap w of
              (Some e, w) \<Rightarrow> Some (1, say (PrintError ''Error pushing secrets'' e) w)
            | (None, w) \<Rightarrow> Some (0, say (Pushed (length envVars)) w))))))
      else if flagSync fl then
        (case loadParameterMapRaw env (flagMap fl) w of
           Inl e \<Rightarrow> Some (1, say (PrintError ''Error loading parameter map'' e) w)
         | Inr paramMap \<Rightarrow>
        (case validateAzureParameterMap paramMap of
           Some e \<Rightarrow> Some (1, say (PrintError ''Error: invalid parameter map'' e) w)
         | None \<Rightarrow>
        (case readEnvFile env (flagEnv fl) w of
           Inl e \<Rightarrow> Some (1, say (PrintError ''Error reading .env file'' e) w)
         | Inr localEnvVars \<Rightarrow>
        (case syncParametersWithAzure env localEnvVars paramMap (flagEnv fl) (flagForce fl)
                (flagQuotes fl) w of
           None \<Rightarrow> None
         | Some (Some e, w) \<Rightarrow> Some (1, say (PrintError ''Error syncing secrets'' e) w)
         | Some (None, w) \<Rightarrow> Some (0, w)))))
      else
        (case loadParameterMapRaw env (flagMap fl) w of
           Inl e \<Rightarrow> Some (1, say (PrintError ''Error loading parameter map'' e) w)
         | Inr paramMap \<Rightarrow>
        (case validateAzureParameterMap paramMap of
           Some e \<Rightarrow> Some (1, say (PrintError ''Error: invalid parameter map'' e) w)
         | None \<Rightarrow>
        (case fetchParametersFromAzure env paramMap w of
           (Inl e, w) \<Rightarrow> Some (1, say (PrintError ''Error fetching secrets'' e) w)
         | (Inr envVars, w) \<Rightarrow>
        (case writeEnvFile env (flagEnv fl) envVars (flagQuotes fl) w of
           (Some e, w) \<Rightarrow> Some (1, say (PrintError ''Error writing .env file'' e) w)
         | (None, w) \<Rightarrow> Some (0, say (Generated (flagEnv fl) (length envVars)) w))))))"

definition mainAWS :: "Env \<Rightarrow> Flags \<Rightarrow> World \<Rightarrow> (nat \<times> World) option" where
  "mainAWS env fl w =
     (if flagPush fl then
        (if flagKey fl \<noteq> [] then
           (case validateEnvVarName (flagKey fl) of
              Some e \<Rightarrow> Some (1, say (PrintError ''Error: invalid environment variable name'' e) w)
            | None \<Rightarrow>
           (case validateSSMPath (flagSsmPath fl) of
              Some e \<Rightarrow> Some (1, say (PrintError ''Error: invalid SSM path'' e) w)
            | None \<Rightarrow>
           (case pushSingleParameter env (flagKey fl) (flagValue fl) (flagSsmPath fl) w of
              (Some e, w) \<Rightarrow> Some (1, say (PrintError ''Error pushing parameter'' e) w)
            | (None, w) \<Rightarrow> Some (0, say (PushedSingle (flagKey fl) (flagSsmPath fl)) w))))
         else
           (case loadParameterMap env (flagMap fl) w of
              Inl e \<Rightarrow> Some (1, say (PrintError ''Error loading parameter map'' e) w)
            | Inr paramMap \<Rightarrow>
           (case readEnvFile env (flagEnv fl) w of
              Inl e \<Rightarrow> Some (1, say (PrintError ''Error reading .env file'' e) w)
            | Inr envVars \<Rightarrow>
           (case pushParameters env envVars paramMap w of
              (Some e, w) \<Rightarrow> Some (1, say (PrintError ''Error pushing parameters'' e) w)
            | (None, w) \<Rightarrow> Some (0, say (Pushed (length envVars)) w)))))
      else if flagSync fl then
        (case loadParameterMap env (flagMap fl) w of
           Inl e \<Rightarrow> Some (1, say (PrintError ''Error loading parameter map'' e) w)
         | Inr paramMap \<Rightarrow>
        (case readEnvFile env (flagEnv fl) w of
           Inl e \<Rightarrow> Some (1, say (PrintError ''Error reading .env file'' e) w)
         | Inr localEnvVars \<Rightarrow>
        (case syncParameters env localEnvVars paramMap (flagEnv fl) (flagForce fl)
                (flagQuotes fl) w of
           None \<Rightarrow> None
         | Some (Some e, w) \<Rightarrow> Some (1, say (PrintError ''Error syncing parameters'' e) w)
         | Some (None, w) \<Rightarrow> Some (0, w))))
      else
        (case loadParameterMap env (flagMap fl) w of
           Inl e \<Rightarrow> Some (1, say (PrintError ''Error loading parameter map'' e) w)
         | Inr paramMap \<Rightarrow>
        (case fetchParameters env paramMap w of
           (Inl e, w) \<Rightarrow> Some (1, say (PrintError ''Error fetching parameters'' e) w)
         | (Inr envVars, w) \<Rightarrow>
        (case writeEnvFile env (flagEnv fl) envVars (flagQuotes fl) w of
           (Some e, w) \<Rightarrow> Some (1, say (PrintError ''Error writing .env file'' e) w)
         | (None, w) \<Rightarrow> Some (0, say (Generated (flagEnv fl) (length envVars)) w)))))"

definition main :: "Env \<Rightarrow> Flags \<Rightarrow> World \<Rightarrow> (nat \<times> World) option" where
  "main env fl w =
     (let w = say (Print ''EnvChanter'') w in
      if flagVersion fl then Some (0, say (Print ''EnvChanter version'') w)
      else if flagPush fl \<and> flagSync fl
        then Some (1, usage ''Error: Cannot use --push and --sync together'' w)
      else if flagAzure fl \<and> flagVaultName fl = []
        then Some (1, usage ''Error: --vault-name is required when using --azure'' w)
      else
        (case modeValidation fl of
           Some msg \<Rightarrow> Some (1, usage msg w)
         | None \<Rightarrow>
             if flagAzure fl then
               (if clientError env
                then Some (1, say (Print ''Error creating Azure Key Vault client'') w)
                else mainAzure env fl w)
             else
               (if clientError env
                then Some (1, say (Print ''Error loading AWS config'') w)
                else mainAWS env fl w)))"

text \<open>
  What loading and validating the mapping file yields for the backend selected: the
  first steps of every branch of \<open>main\<close> but the single-key push, which is the branch taken
  when \<open>--push\<close> comes with a \<open>--key\<close>, and which validates its own name and identifier
  instead.
\<close>

definition loadMapping :: "Env \<Rightarrow> Flags \<Rightarrow> World \<Rightarrow> error + ParameterMap" where
  "loadMapping env fl w =
     (if flagAzure fl then
        (case loadParameterMapRaw env (flagMap fl) w of
           Inl e \<Rightarrow> Inl e
         | Inr paramMap \<Rightarrow>
             (case validateAzureParameterMap paramMap of
                Some e \<Rightarrow> Inl (InvalidParameterMap e)
              | None \<Rightarrow> Inr paramMap))
      else loadParameterMap env (flagMap fl) w)"

definition singleKeyPush :: "Flags \<Rightarrow> bool" where
  "singleKeyPush fl = (flagPush fl \<and> flagKey fl \<noteq> [])"

definition singleKeyInvalid :: "Flags \<Rightarrow> bool" where
  "singleKeyInvalid fl =
     (validateEnvVarName (flagKey fl) \<noteq> None
      \<or> (if flagAzure fl then validateAzureSecretName (flagSecretName fl) \<noteq> None
          else validateSSMPath (flagSsmPath fl) \<noteq> None))"

text \<open>
  The values of the flags when the command line gives none, and the test that a mode
  gives some access to the group or to others (the bits \<open>077\<close>).
\<close>

definition defaultFlags :: Flags where
  "defaultFlags =
     \<lparr>flagMap = [], flagEnv = ''.env'', flagProfile = [], flagRegion = [],
      flagVersion = False, flagPush = False, flagSync = False, flagForce = False,
      flagKey = [], flagValue = [], flagSsmPath = [], flagSecretName = [],
      flagQuotes = False, flagAzure = False, flagVaultName = []\<rparr>"

definition groupOrWorldAccess :: "32 word \<Rightarrow> bool" where
  "groupOrWorldAccess p = (p AND 0x3F \<noteq> 0)"

section \<open>Example worlds\<close>

text \<open>A world with no file, nothing typed and nothing printed, and a remote store given
  by the values it holds and the identifiers at which its calls fail; the examples below
  are built from them.\<close>

definition emptyWorld :: World where
  "emptyWorld = \<lparr>files = Map.empty, umask = 0x12, stdin = [], stdout = [], calls = []\<rparr>"

definition remoteOf :: "(string \<times> string) list \<Rightarrow> (string \<Rightarrow> bool) \<Rightarrow> Env" where
  "remoteOf stored fails =
     \<lparr>fetch = (\<lambda>identifier. if fails identifier then FetchFailed (OtherFailure ''throttled'')
                else case map_of stored identifier of Some v \<Rightarrow> Value v | None \<Rightarrow> NotFound),
      store = (\<lambda>identifier v. if fails identifier then Some (OtherFailure ''throttled'') else None),
      unmarshal = (\<lambda>data. None),
      readError = (\<lambda>filename. False),
      openError = (\<lambda>filename. False),
      writeError = (\<lambda>filename n. False),
      clientError = False\<rparr>"

section \<open>Validation: theorems\<close>

lemma validateSSMPath_loop_None:
  "validateSSMPath_loop s = None \<longleftrightarrow> list_all ssmPathChar s"
  by (induction s) auto

lemma validateAzureSecretName_loop_None:
  "validateAzureSecretName_loop s = None \<longleftrightarrow> list_all secretNameChar s"
  by (induction s) auto

lemma validateEnvVarName_loop_Suc:
  "validateEnvVarName_loop (Suc i) s = None \<longleftrightarrow> list_all envVarNameChar s"
  by (induction s arbitrary: i) auto

lemma digit_not_letter: "isDigit c \<Longrightarrow> \<not> isUpper c \<and> \<not> isLower c \<and> c \<noteq> CHR ''_''"
  by (auto simp: isDigit_def isUpper_def isLower_def less_eq_char_def)

lemma validateEnvVarName_None:
  "validateEnvVarName s = None \<longleftrightarrow> matches_local_name s"
proof (cases s)
  case Nil
  then show ?thesis by (simp add: validateEnvVarName_def matches_local_name_def)
next
  case (Cons c cs)
  then show ?thesis
    using digit_not_letter [of c]
    by (auto simp: validateEnvVarName_def matches_local_name_def
        validateEnvVarName_loop_Suc envVarNameChar_def)
qed

lemma validateAzureSecretName_None:
  "validateAzureSecretName s = None \<longleftrightarrow> name_style_rule s"
  by (cases s)
    (auto simp: validateAzureSecretName_def name_style_rule_def
      validateAzureSecretName_loop_None)

lemma validateSSMPath_None:
  "validateSSMPath s = None \<longleftrightarrow> path_style_rule s \<and> \<not> Contains s ''..''"
proof (cases "validateSSMPath_loop s")
  case None
  then have "list_all ssmPathChar s"
    by (simp add: validateSSMPath_loop_None)
  with None show ?thesis
    by (auto simp: validateSSMPath_def path_style_rule_def)
next
  case (Some e)
  then have "\<not> list_all ssmPathChar s"
    using validateSSMPath_loop_None [of s] by simp
  with Some show ?thesis
    by (auto simp: validateSSMPath_def path_style_rule_def)
qed

text \<open>
  C8, as stated, fails for the path-style rule: \<open>/a..b\<close> starts with \<open>/\<close>, has only
  allowed characters and is short, and \<open>validateSSMPath\<close> rejects it, because the
  function also refuses every path that contains \<open>..\<close> (its path-traversal guard).
\<close>

theorem C8_path_rule_counterexample:
  "path_style_rule ''/a..b'' \<and> validateSSMPath ''/a..b'' = Some SSMPathTraversal"
  by (simp add: path_style_rule_def validateSSMPath_def ssmPathChar_def isUpper_def
      isLower_def isDigit_def less_eq_char_def)

text \<open>
  C8, amended: path-style validation succeeds iff the string starts with \<open>/\<close>, contains
  only characters in \<open>[A-Za-z0-9/_.-]\<close>, has length at most 2048 and does not contain
  \<open>..\<close>; name-style validation succeeds iff the string has 1 to 127 characters, all in
  \<open>[A-Za-z0-9-]\<close>; local-name validation succeeds iff the string matches
  \<open>^[A-Za-z_][A-Za-z0-9_]*$\<close>.
\<close>

theorem C8_validation_rules:
  "(validateSSMPath p = None \<longleftrightarrow> path_style_rule p \<and> \<not> Contains p ''..'')
   \<and> (validateAzureSecretName n = None \<longleftrightarrow> name_style_rule n)
   \<and> (validateEnvVarName v = None \<longleftrightarrow> matches_local_name v)"
  using validateSSMPath_None validateAzureSecretName_None validateEnvVarName_None
  by blast

theorem C8_validation_rules_witness:
  "validateSSMPath ''/myapp/dev/db-password'' = None
   \<and> path_style_rule ''/myapp/dev/db-password''
   \<and> validateAzureSecretName ''db-password'' = None \<and> name_style_rule ''db-password''
   \<and> validateEnvVarName ''DB_PASSWORD'' = None \<and> matches_local_name ''DB_PASSWORD''
   \<and> validateEnvVarName ''9LIVES'' \<noteq> None \<and> \<not> matches_local_name ''9LIVES''"
proof -
  have p: "path_style_rule ''/myapp/dev/db-password''"
    by (simp add: path_style_rule_def ssmPathChar_def isUpper_def isLower_def isDigit_def
        less_eq_char_def)
  have n: "name_style_rule ''db-password''"
    by (simp add: name_style_rule_def secretNameChar_def isUpper_def isLower_def
        isDigit_def less_eq_char_def)
  have v: "matches_local_name ''DB_PASSWORD''"
    by (simp add: matches_local_name_def envVarNameChar_def isUpper_def isLower_def
        isDigit_def less_eq_char_def)
  have d: "\<not> matches_local_name ''9LIVES''"
    by (simp add: matches_local_name_def envVarNameChar_def isUpper_def isLower_def
        isDigit_def less_eq_char_def)
  have c: "\<not> Contains ''/myapp/dev/db-password'' ''..''"
    by simp
  show ?thesis
    using C8_validation_rules [of "''/myapp/dev/db-password''" "''db-password''"
        "''DB_PASSWORD''"] C8_validation_rules [of "''/''" "''x''" "''9LIVES''"] p n v d c
    by simp
qed

section \<open>The env-file codec: theorems\<close>

lemma SplitN2_found:
  "sep \<in> set s \<Longrightarrow>
   SplitN2 s sep = [takeWhile (\<lambda>c. c \<noteq> sep) s, tl (dropWhile (\<lambda>c. c \<noteq> sep) s)]"
  by (cases "dropWhile (\<lambda>c. c \<noteq> sep) s") (auto simp: SplitN2_def dropWhile_eq_Nil_conv)

lemma SplitN2_none: "sep \<notin> set s \<Longrightarrow> SplitN2 s sep = [s]"
proof -
  assume "sep \<notin> set s"
  then have "dropWhile (\<lambda>c. c \<noteq> sep) s = []"
    by (induction s) auto
  then show ?thesis unfolding SplitN2_def by (simp only: list.case)
qed

lemma readEnvLines_skip:
  "skippedLine raw \<Longrightarrow> readEnvLines i (raw # rest) m = readEnvLines (Suc i) rest m"
  by (auto simp: skippedLine_def Let_def)

lemma readEnvLines_entry:
  "\<not> skippedLine raw \<Longrightarrow> \<not> malformedLine raw \<Longrightarrow>
   readEnvLines i (raw # rest) m =
     readEnvLines (Suc i) rest (AList.update (fst (lineEntry raw)) (snd (lineEntry raw)) m)"
  by (auto simp: skippedLine_def malformedLine_def Let_def lineEntry_def SplitN2_found)

lemma readEnvLines_malformed:
  "malformedLine raw \<Longrightarrow>
   readEnvLines i (raw # rest) m = Inl (InvalidLine (i + 1) (TrimSpace raw))"
  by (auto simp: skippedLine_def malformedLine_def Let_def SplitN2_none)

lemma readEnvLines_ok:
  "\<forall>raw\<in>set ls. \<not> malformedLine raw \<Longrightarrow>
   readEnvLines i ls m = Inr (assignAll m (entries ls))"
proof (induction ls arbitrary: i m)
  case Nil
  show ?case by (simp add: entries_def assignAll_def)
next
  case (Cons raw rest)
  then have rest: "\<forall>r\<in>set rest. \<not> malformedLine r" and raw: "\<not> malformedLine raw"
    by simp_all
  show ?case
  proof (cases "skippedLine raw")
    case True
    then show ?thesis
      using Cons.IH [OF rest] by (simp add: readEnvLines_skip entries_def del: readEnvLines.simps)
  next
    case False
    then show ?thesis
      using Cons.IH [OF rest] raw
      by (simp add: readEnvLines_entry entries_def assignAll_def case_prod_beta
          del: readEnvLines.simps)
  qed
qed

lemma readEnvLines_bad:
  "\<forall>raw\<in>set pre. \<not> malformedLine raw \<Longrightarrow> malformedLine bad \<Longrightarrow>
   readEnvLines i (pre @ bad # post) m = Inl (InvalidLine (i + length pre + 1) (TrimSpace bad))"
proof (induction pre arbitrary: i m)
  case Nil
  then show ?case by (simp add: readEnvLines_malformed del: readEnvLines.simps)
next
  case (Cons raw rest)
  then have rest: "\<forall>r\<in>set rest. \<not> malformedLine r" and raw: "\<not> malformedLine raw"
    by simp_all
  show ?case
  proof (cases "skippedLine raw")
    case True
    then show ?thesis
      using Cons.IH [OF rest Cons.prems(2)]
      by (simp add: readEnvLines_skip del: readEnvLines.simps)
  next
    case False
    then show ?thesis
      using Cons.IH [OF rest Cons.prems(2)] raw
      by (simp add: readEnvLines_entry del: readEnvLines.simps)
  qed
qed

lemma map_of_assignAll: "map_of (assignAll m es) = map_of m ++ map_of (rev es)"
proof (induction es arbitrary: m)
  case Nil
  show ?case by (simp add: assignAll_def)
next
  case (Cons e es)
  obtain k v where e: "e = (k, v)" by (cases e)
  have "assignAll m (e # es) = assignAll (AList.update k v m) es"
    by (simp add: assignAll_def e)
  then show ?case
    using Cons.IH [of "AList.update k v m"]
    by (simp add: e update_conv' map_add_def fun_eq_iff split: option.splits)
qed

lemma map_of_last_wins:
  "k \<notin> fst ` set after \<Longrightarrow> map_of (rev (before @ (k, v) # after)) k = Some v"
  by (simp add: map_add_Some_iff map_of_eq_None_iff)


lemma unicodeSpaces_nonempty: "e \<in> set unicodeSpaces \<Longrightarrow> e \<noteq> []"
  by (auto simp: unicodeSpaces_def)

lemma leadingSpace_encoding:
  assumes "leadingSpace t \<noteq> 0"
  shows "\<exists>e. spaceEncoding e \<and> prefix e t"
proof (cases "asciiSpace (hd t)")
  case True
  from assms have "t \<noteq> []" by (auto simp: leadingSpace_def)
  then have "prefix [hd t] t" by (cases t) simp_all
  with True show ?thesis by (auto simp: spaceEncoding_def)
next
  case False
  with assms obtain e where "find (\<lambda>e. prefix e t) unicodeSpaces = Some e"
    by (auto simp: leadingSpace_def split: if_splits option.splits)
  then have "e \<in> set unicodeSpaces \<and> prefix e t"
    by (auto simp: find_Some_iff)
  then show ?thesis by (auto simp: spaceEncoding_def)
qed

lemma trailingSpace_encoding:
  assumes "trailingSpace t \<noteq> 0"
  shows "\<exists>e. spaceEncoding e \<and> suffix e t \<and> length e = trailingSpace t"
proof (cases "asciiSpace (last t)")
  case True
  from assms have ne: "t \<noteq> []" by (auto simp: trailingSpace_def)
  then have "suffix [last t] t"
    by (metis append_butlast_last_id suffixI)
  with True ne show ?thesis by (auto simp: spaceEncoding_def trailingSpace_def)
next
  case False
  with assms obtain e where e: "find (\<lambda>e. suffix e t) unicodeSpaces = Some e"
    by (auto simp: trailingSpace_def split: if_splits option.splits)
  then have "e \<in> set unicodeSpaces \<and> suffix e t"
    by (auto simp: find_Some_iff)
  moreover from e False assms have "trailingSpace t = length e"
    by (auto simp: trailingSpace_def split: if_splits)
  ultimately show ?thesis by (auto simp: spaceEncoding_def)
qed

lemma encoding_leadingSpace:
  assumes "spaceEncoding e" and "prefix e t"
  shows "leadingSpace t \<noteq> 0"
proof (cases "asciiSpace (hd t)")
  case True
  from assms have "t \<noteq> []"
    by (auto simp: spaceEncoding_def dest: unicodeSpaces_nonempty)
  with True show ?thesis by (simp add: leadingSpace_def)
next
  case False
  from assms have ne: "t \<noteq> []"
    by (auto simp: spaceEncoding_def dest: unicodeSpaces_nonempty)
  have "e \<in> set unicodeSpaces"
  proof (rule ccontr)
    assume "e \<notin> set unicodeSpaces"
    with assms(1) obtain c where "asciiSpace c" "e = [c]"
      by (auto simp: spaceEncoding_def)
    with assms(2) ne False show False by (cases t) auto
  qed
  with assms(2) have "find (\<lambda>e. prefix e t) unicodeSpaces \<noteq> None"
    by (auto simp: find_None_iff)
  then obtain e' where e': "find (\<lambda>e. prefix e t) unicodeSpaces = Some e'"
    by auto
  then have "e' \<in> set unicodeSpaces" by (auto simp: find_Some_iff)
  then have "e' \<noteq> []" by (rule unicodeSpaces_nonempty)
  with e' False ne show ?thesis by (simp add: leadingSpace_def)
qed

lemma TrimRight_empty:
  "TrimRight t = [] \<Longrightarrow> t = [] \<or> leadingSpace t \<noteq> 0"
proof (induction t rule: TrimRight.induct)
  case (1 s)
  show ?case
  proof (cases "trailingSpace s = 0")
    case True
    with "1.prems" show ?thesis by (simp add: TrimRight.simps [of s])
  next
    case False
    let ?s' = "take (length s - trailingSpace s) s"
    from False "1.prems" have "TrimRight ?s' = []"
      by (simp add: TrimRight.simps [of s])
    from "1.IH" [OF False this] have ih: "?s' = [] \<or> leadingSpace ?s' \<noteq> 0" .
    from trailingSpace_encoding [OF False] obtain e
      where e: "spaceEncoding e" "suffix e s" "length e = trailingSpace s" by blast
    from ih show ?thesis
    proof
      assume "?s' = []"
      with e have "length s \<le> length e" by auto
      with e(2) have "e = s"
        by (auto simp: suffix_def)
      with e(1) show ?thesis using encoding_leadingSpace [of e s] by simp
    next
      assume "leadingSpace ?s' \<noteq> 0"
      from leadingSpace_encoding [OF this] obtain e' where "spaceEncoding e'" "prefix e' ?s'"
        by blast
      moreover have "prefix ?s' s" by (rule take_is_prefix)
      ultimately show ?thesis using encoding_leadingSpace [of e' s] by (auto intro: prefix_order.trans)
    qed
  qed
qed

lemma TrimLeft_no_leading: "leadingSpace (TrimLeft s) = 0"
  by (induction s rule: TrimLeft.induct) (simp add: TrimLeft.simps)

lemma TrimRight_prefix: "prefix (TrimRight s) s"
proof (induction s rule: TrimRight.induct)
  case (1 s)
  show ?case
  proof (cases "trailingSpace s = 0")
    case True
    then show ?thesis by (simp add: TrimRight.simps [of s])
  next
    case False
    from "1.IH" [OF False] have "prefix (TrimRight s) (take (length s - trailingSpace s) s)"
      using False by (simp add: TrimRight.simps [of s])
    then show ?thesis
      using take_is_prefix prefix_order.trans by blast
  qed
qed

lemma trailingSpace_Cons:
  assumes "\<not> spaceByte c"
  shows "trailingSpace (c # cs) = trailingSpace cs"
proof -
  have f: "find (\<lambda>e. suffix e (c # cs)) unicodeSpaces = find (\<lambda>e. suffix e cs) unicodeSpaces"
  proof (rule find_cong [OF refl])
    fix e assume e: "e \<in> set unicodeSpaces"
    with assms have "c \<notin> set e" by (auto simp: spaceByte_def)
    then have "e \<noteq> c # cs" by auto
    then show "suffix e (c # cs) = suffix e cs" by (simp add: suffix_Cons)
  qed
  show ?thesis
  proof (cases cs)
    case Nil
    have "find (\<lambda>e. suffix e []) unicodeSpaces = None"
      by (auto simp: find_None_iff dest: unicodeSpaces_nonempty)
    with f Nil assms show ?thesis
      by (simp add: trailingSpace_def spaceByte_def)
  next
    case (Cons a as)
    with f show ?thesis by (simp add: trailingSpace_def)
  qed
qed

lemma trailingSpace_le': "trailingSpace s \<le> length s"
proof (cases "trailingSpace s = 0")
  case True
  then show ?thesis by simp
next
  case False
  from trailingSpace_encoding [OF False] show ?thesis
    by (auto dest: suffix_length_le)
qed

lemma TrimRight_Cons:
  "\<not> spaceByte c \<Longrightarrow> TrimRight (c # cs) = c # TrimRight cs"
proof (induction cs rule: TrimRight.induct)
  case (1 s)
  show ?case
  proof (cases "trailingSpace s = 0")
    case True
    with "1.prems" show ?thesis
      by (simp add: TrimRight.simps [of s] TrimRight.simps [of "c # s"] trailingSpace_Cons)
  next
    case False
    have "Suc (length s) - trailingSpace s = Suc (length s - trailingSpace s)"
      using trailingSpace_le' [of s] by simp
    with False "1.prems" "1.IH" [OF False "1.prems"] show ?thesis
      by (simp add: TrimRight.simps [of s] TrimRight.simps [of "c # s"] trailingSpace_Cons)
  qed
qed

lemma hash_not_spaceByte: "\<not> spaceByte (CHR ''#'')"
  by (simp add: spaceByte_def asciiSpace_def unicodeSpaces_def)

lemma skippedLine_blankOrComment: "skippedLine raw \<longleftrightarrow> blankOrComment raw"
proof -
  let ?t = "TrimLeft raw"
  have e: "TrimRight ?t = [] \<longleftrightarrow> ?t = []"
    using TrimRight_empty [of ?t] TrimLeft_no_leading [of raw]
    by (auto simp: TrimRight.simps [of "[]"] trailingSpace_def)
  have h: "prefix ''#'' (TrimRight ?t) \<longleftrightarrow> prefix ''#'' ?t"
  proof
    assume "prefix ''#'' (TrimRight ?t)"
    with TrimRight_prefix [of ?t] show "prefix ''#'' ?t"
      using prefix_order.trans by blast
  next
    assume "prefix ''#'' ?t"
    then obtain cs where "?t = CHR ''#'' # cs" by (cases ?t) auto
    then show "prefix ''#'' (TrimRight ?t)"
      using TrimRight_Cons [OF hash_not_spaceByte, of cs] by simp
  qed
  from e h show ?thesis
    by (simp add: skippedLine_def blankOrComment_def TrimSpace_def)
qed

lemma ReplaceAll_Nil [simp]: "ReplaceAll [] old new = []"
  by (simp add: ReplaceAll.simps)

lemma ReplaceAll_match:
  "old \<noteq> [] \<Longrightarrow> ReplaceAll (old @ rest) old new = new @ ReplaceAll rest old new"
  by (subst ReplaceAll.simps) simp

lemma ReplaceAll_skip:
  "old \<noteq> [] \<Longrightarrow> \<not> prefix old (c # cs) \<Longrightarrow>
   ReplaceAll (c # cs) old new = c # ReplaceAll cs old new"
  by (subst ReplaceAll.simps) simp

lemma ReplaceAll_char:
  "ReplaceAll s [c] new = concat (map (\<lambda>x. if x = c then new else [x]) s)"
proof (induction s)
  case Nil
  show ?case by simp
next
  case (Cons x s)
  show ?case
  proof (cases "x = c")
    case True
    then show ?thesis
      using ReplaceAll_match [of "[c]" s new] Cons.IH by simp
  next
    case False
    then show ?thesis
      using ReplaceAll_skip [of "[c]" x s new] Cons.IH by simp
  qed
qed

lemma escapeValue_append: "escapeValue (a @ b) = escapeValue a @ escapeValue b"
  by (simp add: escapeValue_def ReplaceAll_char Let_def)

lemma escapeValue_single: "escapeValue [c] = escChar c"
  by (simp add: escapeValue_def ReplaceAll_char Let_def escChar_def)

lemma escapeValue_concat: "escapeValue v = concat (map escChar v)"
proof (induction v)
  case Nil
  show ?case by (simp add: escapeValue_def Let_def)
next
  case (Cons c v)
  have "escapeValue (c # v) = escapeValue [c] @ escapeValue v"
    using escapeValue_append [of "[c]" v] by simp
  with Cons show ?case by (simp add: escapeValue_single)
qed

lemma ReplaceAll_tokens:
  assumes tok: "\<And>c. c \<in> set v \<Longrightarrow>
      (f c = [BSL, x] \<and> g c = [y])
      \<or> (g c = f c \<and> (f c = [BSL] \<or> (\<exists>z. f c = [z] \<and> z \<noteq> BSL)
                      \<or> (\<exists>z. f c = [BSL, z] \<and> z \<noteq> x \<and> z \<noteq> BSL)))"
    and adj: "loneBackslashOK f x v"
  shows "ReplaceAll (concat (map f v)) [BSL, x] [y] = concat (map g v)"
  using assms
proof (induction v)
  case Nil
  show ?case by simp
next
  case (Cons c v)
  have adj': "loneBackslashOK f x v"
    using Cons.prems(2) by (cases v) simp_all
  have ih: "ReplaceAll (concat (map f v)) [BSL, x] [y] = concat (map g v)"
    by (rule Cons.IH) (use Cons.prems(1) adj' in auto)
  let ?R = "concat (map f v)"
  from Cons.prems(1) [of c]
  consider (hit) "f c = [BSL, x]" "g c = [y]"
    | (lone) "g c = f c" "f c = [BSL]"
    | (plain) z where "g c = f c" "f c = [z]" "z \<noteq> BSL"
    | (other) z where "g c = f c" "f c = [BSL, z]" "z \<noteq> x" "z \<noteq> BSL"
    by auto
  then show ?case
  proof cases
    case hit
    then show ?thesis
      using ReplaceAll_match [of "[BSL, x]" ?R "[y]"] ih by simp
  next
    case lone
    have "\<not> prefix [BSL, x] (BSL # ?R)"
    proof (cases v)
      case Nil
      then show ?thesis by simp
    next
      case (Cons d rest)
      with Cons.prems(2) lone have h: "hd (f d) \<noteq> x" by simp
      from Cons.prems(1) [of d] Cons have "f d \<noteq> []" by auto
      with h Cons show ?thesis by (cases "f d") auto
    qed
    with lone show ?thesis
      using ReplaceAll_skip [of "[BSL, x]" BSL ?R "[y]"] ih by simp
  next
    case plain
    then show ?thesis
      using ReplaceAll_skip [of "[BSL, x]" z ?R "[y]"] ih by simp
  next
    case other
    then show ?thesis
      using ReplaceAll_skip [of "[BSL, x]" BSL "z # ?R" "[y]"]
        ReplaceAll_skip [of "[BSL, x]" z ?R "[y]"] ih
      by simp
  qed
qed

lemmas unesc_defs = escChar_def unesc1_def unesc2_def unesc3_def unesc4_def

lemma lone_pass1: "loneBackslashOK escChar BSL v"
  by (induction escChar BSL v rule: loneBackslashOK.induct) (auto simp: escChar_def)

lemma lone_pass2: "loneBackslashOK unesc1 DQ v"
  by (induction unesc1 DQ v rule: loneBackslashOK.induct) (auto simp: unesc_defs)

lemma lone_pass3: "noClash v \<Longrightarrow> loneBackslashOK unesc2 (CHR ''n'') v"
  by (induction unesc2 "CHR ''n''" v rule: loneBackslashOK.induct)
    (auto simp: unesc_defs split: if_splits)

lemma lone_pass4: "noClash v \<Longrightarrow> loneBackslashOK unesc3 (CHR ''r'') v"
  by (induction unesc3 "CHR ''r''" v rule: loneBackslashOK.induct)
    (auto simp: unesc_defs split: if_splits)

lemma lone_pass5: "noClash v \<Longrightarrow> loneBackslashOK unesc4 (CHR ''t'') v"
  by (induction unesc4 "CHR ''t''" v rule: loneBackslashOK.induct)
    (auto simp: unesc_defs split: if_splits)

lemma pass1: "ReplaceAll (concat (map escChar v)) [BSL, BSL] [BSL] = concat (map unesc1 v)"
  by (rule ReplaceAll_tokens [OF _ lone_pass1]) (auto simp: unesc_defs)

lemma pass2: "ReplaceAll (concat (map unesc1 v)) [BSL, DQ] [DQ] = concat (map unesc2 v)"
  by (rule ReplaceAll_tokens [OF _ lone_pass2]) (auto simp: unesc_defs)

lemma pass3:
  "noClash v \<Longrightarrow>
   ReplaceAll (concat (map unesc2 v)) [BSL, CHR ''n''] [NL] = concat (map unesc3 v)"
  by (rule ReplaceAll_tokens [OF _ lone_pass3]) (auto simp: unesc_defs)

lemma pass4:
  "noClash v \<Longrightarrow>
   ReplaceAll (concat (map unesc3 v)) [BSL, CHR ''r''] [CR] = concat (map unesc4 v)"
  by (rule ReplaceAll_tokens [OF _ lone_pass4]) (auto simp: unesc_defs)

lemma pass5:
  "noClash v \<Longrightarrow>
   ReplaceAll (concat (map unesc4 v)) [BSL, CHR ''t''] [TAB] = concat (map (\<lambda>c. [c]) v)"
  by (rule ReplaceAll_tokens [OF _ lone_pass5]) (auto simp: unesc_defs)

lemma unescape_escape: "noClash v \<Longrightarrow> unescapeValue (escapeValue v) = v"
  by (simp add: unescapeValue_def Let_def escapeValue_concat pass1 pass2 pass3 pass4 pass5)

lemma spaceByte_cases: "spaceByte c \<Longrightarrow> asciiSpace c \<or> (128 :: nat) \<le> of_char c"
  by (auto simp: spaceByte_def unicodeSpaces_def)

lemma envVarNameChar_plain:
  assumes "envVarNameChar c"
  shows "\<not> spaceByte c" and "c \<noteq> CHR ''=''" and "c \<noteq> NL" and "c \<noteq> CHR ''#''"
proof -
  from assms have r: "(of_char c :: nat) < 128" "(48 :: nat) \<le> of_char c"
    by (auto simp: envVarNameChar_def isUpper_def isLower_def isDigit_def less_eq_char_def)
  then have "\<not> asciiSpace c" by (auto simp: asciiSpace_def)
  with r spaceByte_cases [of c] show "\<not> spaceByte c" by auto
  from assms show "c \<noteq> CHR ''=''" "c \<noteq> NL" "c \<noteq> CHR ''#''"
    by (auto simp: envVarNameChar_def isUpper_def isLower_def isDigit_def less_eq_char_def)
qed

lemma DQ_plain: "\<not> spaceByte DQ"
  by (simp add: spaceByte_def asciiSpace_def unicodeSpaces_def)

lemma leadingSpace_plain: "\<not> spaceByte c \<Longrightarrow> leadingSpace (c # cs) = 0"
proof -
  assume c: "\<not> spaceByte c"
  have "\<not> prefix e (c # cs)" if "e \<in> set unicodeSpaces" for e
  proof
    assume p: "prefix e (c # cs)"
    from that have "e \<noteq> []" by (rule unicodeSpaces_nonempty)
    with p have "c \<in> set e" by (cases e) auto
    with that c show False by (auto simp: spaceByte_def)
  qed
  then have "find (\<lambda>e. prefix e (c # cs)) unicodeSpaces = None"
    by (simp add: find_None_iff)
  with c show ?thesis by (simp add: leadingSpace_def spaceByte_def)
qed

lemma trailingSpace_plain: "\<not> spaceByte c \<Longrightarrow> trailingSpace (cs @ [c]) = 0"
proof -
  assume c: "\<not> spaceByte c"
  have "\<not> suffix e (cs @ [c])" if "e \<in> set unicodeSpaces" for e
  proof
    assume p: "suffix e (cs @ [c])"
    from that have "e \<noteq> []" by (rule unicodeSpaces_nonempty)
    with p have "last e = c" by (auto simp: suffix_def) (metis last_appendR last_snoc)
    with \<open>e \<noteq> []\<close> have "c \<in> set e" using last_in_set by blast
    with that c show False by (auto simp: spaceByte_def)
  qed
  then have "find (\<lambda>e. suffix e (cs @ [c])) unicodeSpaces = None"
    by (simp add: find_None_iff)
  with c show ?thesis by (simp add: trailingSpace_def spaceByte_def)
qed

lemma TrimSpace_plain:
  assumes "s \<noteq> []" and "\<not> spaceByte (hd s)" and "\<not> spaceByte (last s)"
  shows "TrimSpace s = s"
proof -
  from assms(1,2) have "leadingSpace s = 0"
    using leadingSpace_plain [of "hd s" "tl s"] by simp
  moreover from assms(1,3) have "trailingSpace s = 0"
    using trailingSpace_plain [of "last s" "butlast s"] by simp
  ultimately show ?thesis
    by (simp add: TrimSpace_def TrimLeft.simps [of s] TrimRight.simps [of s])
qed

lemma Split_no_sep: "sep \<notin> set s \<Longrightarrow> Split s sep = [s]"
proof -
  assume "sep \<notin> set s"
  then have "dropWhile (\<lambda>c. c \<noteq> sep) s = []" by (induction s) auto
  then show ?thesis by (subst Split.simps) (simp only: list.case)
qed

lemma takeWhile_until:
  "sep \<notin> set l \<Longrightarrow> takeWhile (\<lambda>c. c \<noteq> sep) (l @ sep # rest) = l"
  by (induction l) auto

lemma dropWhile_until:
  "sep \<notin> set l \<Longrightarrow> dropWhile (\<lambda>c. c \<noteq> sep) (l @ sep # rest) = sep # rest"
  by (induction l) auto

lemma Split_line:
  assumes "sep \<notin> set l"
  shows "Split (l @ sep # rest) sep = l # Split rest sep"
proof -
  from assms have d: "dropWhile (\<lambda>c. c \<noteq> sep) (l @ sep # rest) = sep # rest"
    by (rule dropWhile_until)
  from assms have t: "takeWhile (\<lambda>c. c \<noteq> sep) (l @ sep # rest) = l"
    by (rule takeWhile_until)
  show ?thesis
    by (subst Split.simps) (simp only: d t list.case)
qed

lemma Split_lines:
  "\<forall>l\<in>set ls. NL \<notin> set l \<Longrightarrow> Split (concat (map (\<lambda>l. l @ [NL]) ls)) NL = ls @ [[]]"
proof (induction ls)
  case Nil
  show ?case using Split_no_sep [of NL "[]"] by simp
next
  case (Cons l ls)
  then show ?case
    using Split_line [of NL l "concat (map (\<lambda>l. l @ [NL]) ls)"] by simp
qed

lemma escChar_no_NL: "NL \<notin> set (escChar c)"
  by (simp add: escChar_def)

lemma escapeValue_no_NL: "NL \<notin> set (escapeValue v)"
  by (auto simp: escapeValue_concat escChar_no_NL)

lemma valid_name_chars:
  assumes "validateEnvVarName k = None"
  shows "k \<noteq> []" and "list_all envVarNameChar k"
proof -
  from assms have m: "matches_local_name k" by (simp add: validateEnvVarName_None)
  then show "k \<noteq> []" by (auto simp: matches_local_name_def)
  from m show "list_all envVarNameChar k"
    by (cases k) (auto simp: matches_local_name_def envVarNameChar_def)
qed

lemma quoted_line:
  fixes k e :: string
  assumes k: "validateEnvVarName k = None"
  defines "l \<equiv> k @ ''='' @ [DQ] @ e @ [DQ]"
  shows "\<not> skippedLine l" and "\<not> malformedLine l" and "lineEntry l = (k, unescapeValue e)"
proof -
  from valid_name_chars [OF k] have ne: "k \<noteq> []" and all: "list_all envVarNameChar k" .
  from all have ch: "\<And>c. c \<in> set k \<Longrightarrow> envVarNameChar c" by (simp add: list_all_iff)
  from ne ch have hd: "envVarNameChar (hd k)" and lst: "envVarNameChar (last k)"
    by simp_all
  have tl: "TrimSpace l = l"
    using ne envVarNameChar_plain(1) [OF hd] DQ_plain
    by (intro TrimSpace_plain) (simp_all add: l_def)
  have tk: "TrimSpace k = k"
    using ne envVarNameChar_plain(1) [OF hd] envVarNameChar_plain(1) [OF lst]
    by (intro TrimSpace_plain) simp_all
  have tv: "TrimSpace (DQ # e @ [DQ]) = DQ # e @ [DQ]"
    using DQ_plain by (intro TrimSpace_plain) simp_all
  have noeq: "CHR ''='' \<notin> set k"
    using ch envVarNameChar_plain(2) by blast
  then have tw: "takeWhile (\<lambda>c. c \<noteq> CHR ''='') l = k"
    and dw: "dropWhile (\<lambda>c. c \<noteq> CHR ''='') l = ''='' @ [DQ] @ e @ [DQ]"
    using takeWhile_until [of "CHR ''=''" k "[DQ] @ e @ [DQ]"]
      dropWhile_until [of "CHR ''=''" k "[DQ] @ e @ [DQ]"]
    by (simp_all add: l_def)
  from ne obtain c cs where kc: "k = c # cs" by (cases k) auto
  with hd have "c \<noteq> CHR ''#''"
    using envVarNameChar_plain(4) by auto
  then show s: "\<not> skippedLine l"
    unfolding skippedLine_def tl by (simp add: l_def kc)
  show "\<not> malformedLine l"
    unfolding malformedLine_def tl by (simp add: l_def)
  have rq: "removeQuotes (DQ # e @ [DQ]) = unescapeValue e"
    by (simp add: removeQuotes_def butlast_append)
  show "lineEntry l = (k, unescapeValue e)"
    unfolding lineEntry_def Let_def tl tw dw by (simp add: tk tv rq)
qed

lemma serialize_quoted:
  "serialize s True = concat (map (\<lambda>l. l @ [NL]) (map (quotedLine s) (sort (map fst s))))"
  by (simp add: serialize_def envLines_def envLine_def quotedLine_def comp_def)

lemma TrimSpace_Nil: "TrimSpace [] = []"
  by (simp add: TrimSpace_def TrimLeft.simps [of "[]"] TrimRight.simps [of "[]"]
      leadingSpace_def trailingSpace_def)

lemma skippedLine_Nil: "skippedLine []"
  by (simp add: skippedLine_def TrimSpace_Nil)

lemma map_of_rev_keys:
  "map_of (rev (map (\<lambda>k. (k, g k)) ks)) k = (if k \<in> set ks then Some (g k) else None)"
proof -
  have "rev (map (\<lambda>k. (k, g k)) ks) = map (\<lambda>k. (k, g k)) (rev ks)"
    by (simp add: rev_map)
  then show ?thesis
    by (simp add: map_of_map_restrict restrict_map_def)
qed

lemma round_trip_without_clash:
  assumes ok: "\<forall>(k, v)\<in>set s. validateEnvVarName k = None \<and> noClash v"
  shows "\<exists>r. parseEnv (serialize s True) = Inr r \<and> map_of r = map_of s"
proof -
  let ?ks = "sort (map fst s)"
  let ?ls = "map (quotedLine s) ?ks"
  have keys: "validateEnvVarName k = None" if "k \<in> set ?ks" for k
    using that ok by auto
  have vals: "noClash (mapIndex s k)" if "k \<in> set ?ks" for k
  proof -
    from that have "k \<in> fst ` set s" by simp
    then have "map_of s k \<noteq> None" by (simp add: map_of_eq_None_iff)
    then obtain v where "map_of s k = Some v" by auto
    moreover from this have "(k, v) \<in> set s" by (rule map_of_SomeD)
    ultimately show ?thesis using ok by (auto simp: mapIndex_def)
  qed
  have nonl: "NL \<notin> set l" if "l \<in> set ?ls" for l
  proof -
    from that obtain k where k: "k \<in> set ?ks" "l = quotedLine s k" by auto
    from valid_name_chars(2) [OF keys [OF k(1)]] have "NL \<notin> set k"
      using envVarNameChar_plain(3) by (auto simp: list_all_iff)
    with k(2) show ?thesis
      by (simp add: quotedLine_def escapeValue_no_NL)
  qed
  have split: "Split (serialize s True) NL = ?ls @ [[]]"
    unfolding serialize_quoted using nonl by (intro Split_lines) blast
  have line: "\<not> skippedLine (quotedLine s k) \<and> \<not> malformedLine (quotedLine s k)
      \<and> lineEntry (quotedLine s k) = (k, mapIndex s k)" if "k \<in> set ?ks" for k
    using quoted_line [OF keys [OF that], of "escapeValue (mapIndex s k)"]
      unescape_escape [OF vals [OF that]]
    by (simp add: quotedLine_def)
  have wf: "\<forall>raw\<in>set (Split (serialize s True) NL). \<not> malformedLine raw"
    unfolding split using line skippedLine_Nil by (auto simp: malformedLine_def)
  have "filter (\<lambda>raw. \<not> skippedLine raw) (?ls @ [[]]) = ?ls"
    using line skippedLine_Nil by (auto simp: filter_id_conv)
  then have ent: "entries (Split (serialize s True) NL) = map (\<lambda>k. (k, mapIndex s k)) ?ks"
    unfolding split entries_def using line by simp
  have p: "parseEnv (serialize s True) = Inr (assignAll [] (map (\<lambda>k. (k, mapIndex s k)) ?ks))"
    using readEnvLines_ok [OF wf, of 0 "[]"] ent by (simp add: parseEnv_def)
  have "map_of (assignAll [] (map (\<lambda>k. (k, mapIndex s k)) ?ks)) k = map_of s k" for k
  proof (cases "map_of s k")
    case None
    then have "k \<notin> set ?ks" by (simp add: map_of_eq_None_iff)
    with None show ?thesis by (simp add: map_of_assignAll map_of_rev_keys)
  next
    case (Some v)
    then have "k \<in> set ?ks"
      using map_of_eq_None_iff [of s k] by auto
    with Some show ?thesis by (simp add: map_of_assignAll map_of_rev_keys mapIndex_def)
  qed
  then have "map_of (assignAll [] (map (\<lambda>k. (k, mapIndex s k)) ?ks)) = map_of s"
    by (rule ext)
  with p show ?thesis by blast
qed

text \<open>
  C1 (round trip). The writer escapes a backslash as two backslashes so that the reader
  can restore it, but the reader undoes the escapes in five successive passes: the first
  pass turns \<open>\\n\<close>, written for a backslash followed by the letter \<open>n\<close>, into \<open>\n\<close>, and
  the third pass turns that into a line feed. The snapshot \<open>A\<close> \<open>\<mapsto>\<close> backslash, \<open>n\<close> has a
  valid key and no null byte, and reading back what was written for it yields \<open>A\<close> \<open>\<mapsto>\<close>
  line feed. Without a backslash directly before \<open>n\<close>, \<open>r\<close> or \<open>t\<close> in a value the law
  holds (\<open>round_trip_without_clash\<close>).
\<close>

theorem C1_round_trip_fails:
  "validateEnvVarName ''A'' = None
   \<and> CHR 0x00 \<notin> set [BSL, CHR ''n'']
   \<and> serialize [(''A'', [BSL, CHR ''n''])] True = ''A='' @ [DQ, BSL, BSL, CHR ''n'', DQ, NL]
   \<and> parseEnv (serialize [(''A'', [BSL, CHR ''n''])] True) = Inr [(''A'', [NL])]
   \<and> map_of [(''A'', [NL])] \<noteq> map_of [(''A'', [BSL, CHR ''n''])]"
proof -
  have 1: "validateEnvVarName ''A'' = None" by code_simp
  have 2: "serialize [(''A'', [BSL, CHR ''n''])] True = ''A='' @ [DQ, BSL, BSL, CHR ''n'', DQ, NL]"
    by code_simp
  have 3: "parseEnv (serialize [(''A'', [BSL, CHR ''n''])] True) = Inr [(''A'', [NL])]"
    by code_simp
  have 4: "map_of [(''A'', [NL])] ''A'' \<noteq> map_of [(''A'', [BSL, CHR ''n''])] ''A''"
    by simp
  from 4 have 5: "map_of [(''A'', [NL])] \<noteq> map_of [(''A'', [BSL, CHR ''n''])]"
    by metis
  from 1 2 3 5 show ?thesis by simp
qed

text \<open>
  C7, as stated, fails: the line \<open>A=b=c\<close> contains two \<open>=\<close>, not exactly one, and parsing
  succeeds. The source cuts the line at the first \<open>=\<close> (\<open>SplitN\<close> with a limit of 2) and
  leaves every later \<open>=\<close> in the value.
\<close>

theorem C7_two_delimiters_counterexample:
  "count_list ''A=b=c'' (CHR ''='') = 2 \<and> parseEnv ''A=b=c'' = Inr [(''A'', ''b=c'')]"
  by code_simp

text \<open>
  C7, amended: blank lines and lines whose first character that is not white space is \<open>#\<close>
  are skipped (these are the lines that \<^const>\<open>skippedLine\<close>, the test of the source,
  skips); every other line must contain at least one \<open>=\<close>, and is cut at the first one into
  a trimmed key and a trimmed value (the entry \<^const>\<open>lineEntry\<close>); when every line is so,
  parsing succeeds and stores the entries in file order; otherwise it fails at the first
  line that has no \<open>=\<close>, reporting the 1-based number of that line.
\<close>

theorem C7_parse_lines:
  "((\<forall>raw\<in>set (Split data NL). \<not> malformedLine raw)
      \<longrightarrow> parseEnv data = Inr (assignAll [] (entries (Split data NL))))
   \<and> (Split data NL = pre @ bad # post \<and> (\<forall>raw\<in>set pre. \<not> malformedLine raw)
        \<and> malformedLine bad
      \<longrightarrow> parseEnv data = Inl (InvalidLine (length pre + 1) (TrimSpace bad)))
   \<and> (skippedLine l \<longleftrightarrow> blankOrComment l)"
  using readEnvLines_ok [of "Split data NL" 0 "[]"] readEnvLines_bad [of pre bad 0 post "[]"]
    skippedLine_blankOrComment [of l]
  by (auto simp: parseEnv_def)

theorem C7_parse_lines_witness:
  "Split (''VALID_KEY=value'' @ [NL] @ ''FOOBAR'' @ [NL] @ ''ANOTHER_VALID=test'') NL
     = [''VALID_KEY=value''] @ ''FOOBAR'' # [''ANOTHER_VALID=test'']
   \<and> list_all (\<lambda>raw. \<not> malformedLine raw) [''VALID_KEY=value'']
   \<and> malformedLine ''FOOBAR''
   \<and> parseEnv (''VALID_KEY=value'' @ [NL] @ ''FOOBAR'' @ [NL] @ ''ANOTHER_VALID=test'')
       = Inl (InvalidLine 2 ''FOOBAR'')
   \<and> list_all (\<lambda>raw. \<not> malformedLine raw)
        (Split (''# c'' @ [NL] @ '' A = b=c '' @ [NL]) NL)
   \<and> parseEnv (''# c'' @ [NL] @ '' A = b=c '' @ [NL]) = Inr [(''A'', ''b=c'')]"
proof -
  have s: "Split (''VALID_KEY=value'' @ [NL] @ ''FOOBAR'' @ [NL] @ ''ANOTHER_VALID=test'') NL
     = [''VALID_KEY=value''] @ ''FOOBAR'' # [''ANOTHER_VALID=test'']"
    by code_simp
  have p: "\<forall>raw\<in>set [''VALID_KEY=value'']. \<not> malformedLine raw"
    by code_simp
  have b: "malformedLine ''FOOBAR''"
    by code_simp
  have t: "TrimSpace ''FOOBAR'' = ''FOOBAR''"
    by code_simp
  have g: "\<forall>raw\<in>set (Split (''# c'' @ [NL] @ '' A = b=c '' @ [NL]) NL). \<not> malformedLine raw"
    by code_simp
  have e: "assignAll [] (entries (Split (''# c'' @ [NL] @ '' A = b=c '' @ [NL]) NL))
     = [(''A'', ''b=c'')]"
    by code_simp
  have bad: "parseEnv (''VALID_KEY=value'' @ [NL] @ ''FOOBAR'' @ [NL] @ ''ANOTHER_VALID=test'')
       = Inl (InvalidLine 2 ''FOOBAR'')"
    using C7_parse_lines [of "''VALID_KEY=value'' @ [NL] @ ''FOOBAR'' @ [NL] @ ''ANOTHER_VALID=test''"
        "[''VALID_KEY=value'']" "''FOOBAR''" "[''ANOTHER_VALID=test'']"] s p b t
    by simp
  have good: "parseEnv (''# c'' @ [NL] @ '' A = b=c '' @ [NL]) = Inr [(''A'', ''b=c'')]"
    using C7_parse_lines [of "''# c'' @ [NL] @ '' A = b=c '' @ [NL]" "[]" "[]" "[]"] g e
    by simp
  from s p b bad g good show ?thesis by (simp add: list_all_iff)
qed

text \<open>
  C10: when two or more lines that are not skipped have the same trimmed key and every line
  that is not skipped contains an \<open>=\<close>, parsing succeeds and the key has the value of the
  last of these lines: an entry \<open>(k, v)\<close> after which no entry has the key \<open>k\<close> decides the
  value of \<open>k\<close>, whatever the entries before it are.
\<close>

theorem C10_last_duplicate_wins:
  assumes "\<forall>raw\<in>set (Split data NL). \<not> malformedLine raw"
    and "entries (Split data NL) = before @ (k, v) # after"
    and "k \<notin> fst ` set after"
  shows "\<exists>m. parseEnv data = Inr m \<and> map_of m k = Some v"
proof -
  have "parseEnv data = Inr (assignAll [] (entries (Split data NL)))"
    using assms(1) readEnvLines_ok [of "Split data NL" 0 "[]"] by (simp add: parseEnv_def)
  moreover have "map_of (assignAll [] (entries (Split data NL))) k = Some v"
    using map_of_last_wins [OF assms(3), of before v] assms(2)
    by (simp add: map_of_assignAll)
  ultimately show ?thesis by blast
qed

theorem C10_last_duplicate_wins_witness:
  "list_all (\<lambda>raw. \<not> malformedLine raw)
     (Split (''A=1'' @ [NL] @ ''B=x'' @ [NL] @ '' A = 2'' @ [NL]) NL)
   \<and> entries (Split (''A=1'' @ [NL] @ ''B=x'' @ [NL] @ '' A = 2'' @ [NL]) NL)
       = [(''A'', ''1''), (''B'', ''x'')] @ (''A'', ''2'') # []
   \<and> ''A'' \<notin> fst ` set ([] :: (string \<times> string) list)
   \<and> (\<exists>m. parseEnv (''A=1'' @ [NL] @ ''B=x'' @ [NL] @ '' A = 2'' @ [NL]) = Inr m
          \<and> map_of m ''A'' = Some ''2'')"
proof -
  have g: "\<forall>raw\<in>set (Split (''A=1'' @ [NL] @ ''B=x'' @ [NL] @ '' A = 2'' @ [NL]) NL).
      \<not> malformedLine raw"
    by code_simp
  have e: "entries (Split (''A=1'' @ [NL] @ ''B=x'' @ [NL] @ '' A = 2'' @ [NL]) NL)
       = [(''A'', ''1''), (''B'', ''x'')] @ (''A'', ''2'') # []"
    by code_simp
  have n: "''A'' \<notin> fst ` set ([] :: (string \<times> string) list)"
    by simp
  from C10_last_duplicate_wins [OF g e n] g e n show ?thesis
    by (simp add: list_all_iff)
qed

section \<open>The reconciliation engine: theorems\<close>

lemma compareLoop_acc:
  "compareLoop pm l r acc = acc @ compareLoop pm l r []"
proof (induction pm arbitrary: acc)
  case Nil
  show ?case by simp
next
  case (Cons e pm)
  obtain k p where e: "e = (k, p)" by (cases e)
  have ih: "compareLoop pm l r a = a @ compareLoop pm l r []" for a
    by (rule Cons.IH)
  show ?case
    unfolding e
    by (cases "map_of l k"; cases "map_of r k")
      (simp_all add: ih [of acc] ih [of "acc @ [x]" for x] ih [of "[x]" for x])
qed

lemma compareLoop_concat:
  "compareLoop pm l r [] = concat (map (entryDifference l r) pm)"
proof (induction pm)
  case Nil
  show ?case by simp
next
  case (Cons e pm)
  obtain k p where e: "e = (k, p)" by (cases e)
  show ?case
    unfolding e
    using Cons.IH compareLoop_acc [of pm l r "[x]" for x]
    by (cases "map_of l k"; cases "map_of r k") (auto simp: entryDifference_def)
qed

lemma entryDifference_Key: "d \<in> set (entryDifference l r (k, p)) \<Longrightarrow> Key d = k"
  by (cases "map_of l k"; cases "map_of r k") (auto simp: entryDifference_def split: if_splits)

lemma filter_entryDifference_other:
  "k \<noteq> name \<Longrightarrow> filter (\<lambda>d. Key d = name) (entryDifference l r (k, p)) = []"
  by (auto simp: filter_empty_conv dest: entryDifference_Key)

lemma filter_entryDifference_same:
  "filter (\<lambda>d. Key d = name) (entryDifference l r (name, p)) = entryDifference l r (name, p)"
  by (auto simp: filter_id_conv dest: entryDifference_Key)

lemma filter_differences_absent:
  "name \<notin> fst ` set pm \<Longrightarrow>
   filter (\<lambda>d. Key d = name) (concat (map (entryDifference l r) pm)) = []"
  by (induction pm) (auto simp: filter_entryDifference_other)

lemma filter_differences:
  "distinct (map fst pm) \<Longrightarrow> (name, p) \<in> set pm \<Longrightarrow>
   filter (\<lambda>d. Key d = name) (concat (map (entryDifference l r) pm)) = entryDifference l r (name, p)"
proof (induction pm)
  case Nil
  then show ?case by simp
next
  case (Cons e pm)
  obtain k q where e: "e = (k, q)" by (cases e)
  show ?case
  proof (cases "e = (name, p)")
    case True
    with Cons.prems have "name \<notin> fst ` set pm" by auto
    with True show ?thesis
      by (simp add: filter_entryDifference_same filter_differences_absent)
  next
    case False
    with Cons.prems have mem: "(name, p) \<in> set pm" and "k \<noteq> name"
      using e by force+
    with Cons show ?thesis
      by (simp add: e filter_entryDifference_other)
  qed
qed

lemma filter_sortDifferences:
  "distinct (map fst pm) \<Longrightarrow> (name, p) \<in> set pm \<Longrightarrow>
   filter (\<lambda>d. Key d = name) (sortDifferences (findDifferences pm l r))
     = entryDifference l r (name, p)"
proof -
  assume a: "distinct (map fst pm)" "(name, p) \<in> set pm"
  have "length (entryDifference l r (name, p)) \<le> 1"
    by (cases "map_of l name"; cases "map_of r name") (auto simp: entryDifference_def)
  then have "sort_key Key (entryDifference l r (name, p)) = entryDifference l r (name, p)"
    by (cases "entryDifference l r (name, p)") auto
  with a show ?thesis
    by (simp add: sortDifferences_def findDifferences_def compareLoop_concat filter_sort
        filter_differences)
qed

text \<open>
  Snapshots that agree on every mapped name give no difference; and the sorted
  differences do not depend on the order in which the mapping is walked.
\<close>

lemma findDifferences_identical:
  "\<forall>(k, p)\<in>set pm. map_of l k = map_of r k \<Longrightarrow> findDifferences pm l r = []"
proof -
  assume a: "\<forall>(k, p)\<in>set pm. map_of l k = map_of r k"
  have "entryDifference l r (k, p) = []" if "(k, p) \<in> set pm" for k p
    using a that by (cases "map_of r k") (auto simp: entryDifference_def)
  then show ?thesis
    by (auto simp: findDifferences_def compareLoop_concat)
qed

lemma mset_findDifferences:
  "mset (findDifferences pm l r)
     = sum_mset (image_mset (\<lambda>e. mset (entryDifference l r e)) (mset pm))"
  by (induction pm) (simp_all add: findDifferences_def compareLoop_concat)

lemma entryDifference_at_most_one: "length (entryDifference l r (k, p)) \<le> 1"
  by (cases "map_of l k"; cases "map_of r k") (auto simp: entryDifference_def)

lemma findDifferences_member:
  "d \<in> set (findDifferences pm l r) \<Longrightarrow>
   \<exists>p. (Key d, p) \<in> set pm \<and> d \<in> set (entryDifference l r (Key d, p))"
  by (auto simp: findDifferences_def compareLoop_concat dest: entryDifference_Key)

lemma findDifferences_inj:
  assumes "distinct (map fst pm)"
  shows "inj_on Key (set (findDifferences pm l r))"
proof (rule inj_onI)
  fix d d' assume d: "d \<in> set (findDifferences pm l r)"
    and d': "d' \<in> set (findDifferences pm l r)" and k: "Key d = Key d'"
  from findDifferences_member [OF d] obtain p
    where p: "(Key d, p) \<in> set pm" "d \<in> set (entryDifference l r (Key d, p))" by blast
  from findDifferences_member [OF d'] k obtain p'
    where p': "(Key d, p') \<in> set pm" "d' \<in> set (entryDifference l r (Key d, p'))" by auto
  from assms p(1) p'(1) have "p = p'"
    by (meson eq_key_imp_eq_value)
  with p(2) p'(2) entryDifference_at_most_one [of l r "Key d" p] show "d = d'"
    by (cases "entryDifference l r (Key d, p)") auto
qed

lemma sortDifferences_order_independent:
  assumes "distinct (map fst pm)" and "mset pm' = mset pm"
  shows "sortDifferences (findDifferences pm' l r) = sortDifferences (findDifferences pm l r)"
proof -
  from assms have "distinct (map fst pm')"
    by (metis distinct_map mset_eq_setD mset_eq_imp_distinct_iff)
  then have "inj_on Key (set (findDifferences pm' l r))"
    by (rule findDifferences_inj)
  moreover have "mset (findDifferences pm' l r) = mset (sort_key Key (findDifferences pm l r))"
    using assms(2) by (simp add: mset_findDifferences)
  ultimately show ?thesis
    unfolding sortDifferences_def by (intro sort_key_inj_key_eq) simp_all
qed

text \<open>
  C2: for every entry \<open>(name, identifier)\<close> of the mapping, the differences that sync
  computes hold one record for \<open>name\<close> when local lacks \<open>name\<close> and remote has it (with the
  empty string, the sentinel for "absent", as local value) and when both have it with
  unequal values, and none when local has it and remote lacks it or when both have equal
  values; so there is a difference for \<open>name\<close> iff one of the first two cases holds.
\<close>

theorem C2_difference_classification:
  assumes "distinct (map fst paramMap)" and "(name, identifier) \<in> set paramMap"
  shows
    "(map_of localEnvVars name = None \<and> map_of ssmEnvVars name = Some rv \<longrightarrow>
        differencesFor name (sortDifferences (findDifferences paramMap localEnvVars ssmEnvVars))
          = [\<lparr>Key = name, LocalVal = [], SSMVal = rv, SSMPath = identifier, ExistsSSM = True\<rparr>])
     \<and> (map_of localEnvVars name = Some lv \<and> map_of ssmEnvVars name = Some rv \<and> lv \<noteq> rv \<longrightarrow>
        differencesFor name (sortDifferences (findDifferences paramMap localEnvVars ssmEnvVars))
          = [\<lparr>Key = name, LocalVal = lv, SSMVal = rv, SSMPath = identifier, ExistsSSM = True\<rparr>])
     \<and> (map_of localEnvVars name = Some lv \<and> map_of ssmEnvVars name = None \<longrightarrow>
        differencesFor name (sortDifferences (findDifferences paramMap localEnvVars ssmEnvVars))
          = [])
     \<and> (map_of localEnvVars name = Some lv \<and> map_of ssmEnvVars name = Some lv \<longrightarrow>
        differencesFor name (sortDifferences (findDifferences paramMap localEnvVars ssmEnvVars))
          = [])
     \<and> (differencesFor name (sortDifferences (findDifferences paramMap localEnvVars ssmEnvVars))
          \<noteq> []
        \<longleftrightarrow> (map_of localEnvVars name = None \<and> map_of ssmEnvVars name \<noteq> None)
            \<or> (\<exists>l r. map_of localEnvVars name = Some l \<and> map_of ssmEnvVars name = Some r
                  \<and> l \<noteq> r))"
  unfolding differencesFor_def filter_sortDifferences [OF assms]
  by (cases "map_of localEnvVars name"; cases "map_of ssmEnvVars name")
    (auto simp: entryDifference_def)

theorem C2_difference_classification_witness:
  "distinct (map fst [(''A'', ''/a''), (''B'', ''/b''), (''C'', ''/c''), (''D'', ''/d'')])
   \<and> sortDifferences (findDifferences [(''A'', ''/a''), (''B'', ''/b''), (''C'', ''/c''), (''D'', ''/d'')]
         [(''A'', ''1''), (''B'', ''2''), (''C'', ''3'')] [(''D'', ''4''), (''B'', ''9''), (''A'', ''1'')])
       = [\<lparr>Key = ''B'', LocalVal = ''2'', SSMVal = ''9'', SSMPath = ''/b'', ExistsSSM = True\<rparr>,
          \<lparr>Key = ''D'', LocalVal = [], SSMVal = ''4'', SSMPath = ''/d'', ExistsSSM = True\<rparr>]
   \<and> differencesFor ''D'' (sortDifferences (findDifferences
         [(''A'', ''/a''), (''B'', ''/b''), (''C'', ''/c''), (''D'', ''/d'')]
         [(''A'', ''1''), (''B'', ''2''), (''C'', ''3'')] [(''D'', ''4''), (''B'', ''9''), (''A'', ''1'')]))
       = [\<lparr>Key = ''D'', LocalVal = [], SSMVal = ''4'', SSMPath = ''/d'', ExistsSSM = True\<rparr>]
   \<and> differencesFor ''B'' (sortDifferences (findDifferences
         [(''A'', ''/a''), (''B'', ''/b''), (''C'', ''/c''), (''D'', ''/d'')]
         [(''A'', ''1''), (''B'', ''2''), (''C'', ''3'')] [(''D'', ''4''), (''B'', ''9''), (''A'', ''1'')]))
       = [\<lparr>Key = ''B'', LocalVal = ''2'', SSMVal = ''9'', SSMPath = ''/b'', ExistsSSM = True\<rparr>]
   \<and> differencesFor ''C'' (sortDifferences (findDifferences
         [(''A'', ''/a''), (''B'', ''/b''), (''C'', ''/c''), (''D'', ''/d'')]
         [(''A'', ''1''), (''B'', ''2''), (''C'', ''3'')] [(''D'', ''4''), (''B'', ''9''), (''A'', ''1'')]))
       = []
   \<and> differencesFor ''A'' (sortDifferences (findDifferences
         [(''A'', ''/a''), (''B'', ''/b''), (''C'', ''/c''), (''D'', ''/d'')]
         [(''A'', ''1''), (''B'', ''2''), (''C'', ''3'')] [(''D'', ''4''), (''B'', ''9''), (''A'', ''1'')]))
       = []"
proof -
  let ?pm = "[(''A'', ''/a''), (''B'', ''/b''), (''C'', ''/c''), (''D'', ''/d'')]"
  let ?l = "[(''A'', ''1''), (''B'', ''2''), (''C'', ''3'')]"
  let ?r = "[(''D'', ''4''), (''B'', ''9''), (''A'', ''1'')]"
  have d: "distinct (map fst ?pm)" by simp
  have s: "sortDifferences (findDifferences ?pm ?l ?r)
       = [\<lparr>Key = ''B'', LocalVal = ''2'', SSMVal = ''9'', SSMPath = ''/b'', ExistsSSM = True\<rparr>,
          \<lparr>Key = ''D'', LocalVal = [], SSMVal = ''4'', SSMPath = ''/d'', ExistsSSM = True\<rparr>]"
    by code_simp
  have a: "differencesFor ''D'' (sortDifferences (findDifferences ?pm ?l ?r))
       = [\<lparr>Key = ''D'', LocalVal = [], SSMVal = ''4'', SSMPath = ''/d'', ExistsSSM = True\<rparr>]"
    using C2_difference_classification [OF d, of "''D''" "''/d''" ?l ?r "''4''"] by simp
  have b: "differencesFor ''B'' (sortDifferences (findDifferences ?pm ?l ?r))
       = [\<lparr>Key = ''B'', LocalVal = ''2'', SSMVal = ''9'', SSMPath = ''/b'', ExistsSSM = True\<rparr>]"
    using C2_difference_classification [OF d, of "''B''" "''/b''" ?l ?r "''9''" "''2''"] by simp
  have c: "differencesFor ''C'' (sortDifferences (findDifferences ?pm ?l ?r)) = []"
    using C2_difference_classification [OF d, of "''C''" "''/c''" ?l ?r _ "''3''"] by simp
  have e: "differencesFor ''A'' (sortDifferences (findDifferences ?pm ?l ?r)) = []"
    using C2_difference_classification [OF d, of "''A''" "''/a''" ?l ?r _ "''1''"] by simp
  from d s a b c e show ?thesis by simp
qed

lemma promptLoop_done: "length ds \<le> i \<Longrightarrow> promptLoop ds i acc w = Some (acc, w)"
  by (subst promptLoop.simps) simp

lemma promptLoop_select:
  "stdin w = inp \<Longrightarrow> i \<le> length ds \<Longrightarrow>
   map_option fst (promptLoop ds i acc w) = select (drop i ds) acc (map decide inp)"
proof (induction inp arbitrary: i acc w)
  case Nil
  show ?case
  proof (cases "i < length ds")
    case False
    with Nil show ?thesis
      by (simp add: promptLoop_done)
  next
    case True
    then have "drop i ds = ds ! i # drop (Suc i) ds"
      by (simp add: Cons_nth_drop_Suc)
    with True Nil show ?thesis
      by (simp add: promptLoop.simps [of ds i acc w] say_def)
  qed
next
  case (Cons r rs)
  show ?case
  proof (cases "i < length ds")
    case False
    with Cons.prems show ?thesis
      by (simp add: promptLoop_done)
  next
    case True
    then have d: "drop i ds = ds ! i # drop (Suc i) ds"
      by (simp add: Cons_nth_drop_Suc)
    have s: "stdin (say m w\<lparr>stdin := rs\<rparr>) = rs" "stdin (say m' (say m w\<lparr>stdin := rs\<rparr>)) = rs"
      for m m'
      by (simp_all add: say_def)
    from True have i: "Suc i \<le> length ds" by simp
    note ih = Cons.IH [OF s(1) i] Cons.IH [OF s(2) Cons.prems(2)]
    show ?thesis
      using True Cons.prems(1) ih
      by (cases "decide r")
        (auto simp: promptLoop.simps [of ds i acc w] d decide_def Let_def say_def
          split: if_splits)
  qed
qed

text \<open>
  C3: what \<open>promptForUpdates\<close> selects is what the protocol \<^const>\<open>select\<close> selects on
  the decisions read: "yes" accepts the current difference and goes on, "no" goes on,
  "all" stops with the accepted differences, the current one and all that follow,
  "cancel" stops with the accepted differences, and any other input asks again for the
  same difference. \<open>None\<close> on both sides: the input ends before the protocol does, and the
  loop asks for ever.
\<close>

theorem C3_interactive_selection:
  "map_option fst (promptForUpdates differences w) = select differences [] (map decide (stdin w))"
  using promptLoop_select [of w "stdin w" 0 differences "[]"]
  by (simp add: promptForUpdates_def)

theorem C3_interactive_selection_witness:
  "map_option fst (promptForUpdates
      [\<lparr>Key = ''A'', LocalVal = ''1'', SSMVal = ''2'', SSMPath = ''/a'', ExistsSSM = True\<rparr>,
       \<lparr>Key = ''B'', LocalVal = [], SSMVal = ''9'', SSMPath = ''/b'', ExistsSSM = True\<rparr>,
       \<lparr>Key = ''C'', LocalVal = ''3'', SSMVal = ''4'', SSMPath = ''/c'', ExistsSSM = True\<rparr>]
      (emptyWorld\<lparr>stdin := [Some ''maybe'', Some ''Y'', None, Some ''n'', Some ''cancel'']\<rparr>))
     = Some [\<lparr>Key = ''A'', LocalVal = ''1'', SSMVal = ''2'', SSMPath = ''/a'', ExistsSSM = True\<rparr>]
   \<and> map_option fst (promptForUpdates
      [\<lparr>Key = ''A'', LocalVal = ''1'', SSMVal = ''2'', SSMPath = ''/a'', ExistsSSM = True\<rparr>,
       \<lparr>Key = ''B'', LocalVal = [], SSMVal = ''9'', SSMPath = ''/b'', ExistsSSM = True\<rparr>,
       \<lparr>Key = ''C'', LocalVal = ''3'', SSMVal = ''4'', SSMPath = ''/c'', ExistsSSM = True\<rparr>]
      (emptyWorld\<lparr>stdin := [Some ''no'', Some ''ALL'']\<rparr>))
     = Some [\<lparr>Key = ''B'', LocalVal = [], SSMVal = ''9'', SSMPath = ''/b'', ExistsSSM = True\<rparr>,
             \<lparr>Key = ''C'', LocalVal = ''3'', SSMVal = ''4'', SSMPath = ''/c'', ExistsSSM = True\<rparr>]
   \<and> map_option fst (promptForUpdates
      [\<lparr>Key = ''A'', LocalVal = ''1'', SSMVal = ''2'', SSMPath = ''/a'', ExistsSSM = True\<rparr>]
      (emptyWorld\<lparr>stdin := [Some ''what'']\<rparr>))
     = None"
proof -
  let ?a = "\<lparr>Key = ''A'', LocalVal = ''1'', SSMVal = ''2'', SSMPath = ''/a'', ExistsSSM = True\<rparr>"
  let ?b = "\<lparr>Key = ''B'', LocalVal = [], SSMVal = ''9'', SSMPath = ''/b'', ExistsSSM = True\<rparr>"
  let ?c = "\<lparr>Key = ''C'', LocalVal = ''3'', SSMVal = ''4'', SSMPath = ''/c'', ExistsSSM = True\<rparr>"
  have d1: "map decide [Some ''maybe'', Some ''Y'', None, Some ''n'', Some ''cancel'']
      = [Other, Yes, Other, No, Cancel]"
    by code_simp
  have d2: "map decide [Some ''no'', Some ''ALL''] = [No, All]"
    by code_simp
  have d3: "map decide [Some ''what''] = [Other]"
    by code_simp
  have s: "stdin (emptyWorld\<lparr>stdin := inp\<rparr>) = inp" for inp
    by simp
  show ?thesis
    using C3_interactive_selection [of "[?a, ?b, ?c]"
        "emptyWorld\<lparr>stdin := [Some ''maybe'', Some ''Y'', None, Some ''n'', Some ''cancel'']\<rparr>"]
      C3_interactive_selection [of "[?a, ?b, ?c]" "emptyWorld\<lparr>stdin := [Some ''no'', Some ''ALL'']\<rparr>"]
      C3_interactive_selection [of "[?a]" "emptyWorld\<lparr>stdin := [Some ''what'']\<rparr>"]
    by (simp only: s d1 d2 d3 select.simps append.simps)
qed

section \<open>Sync, push and the command line: theorems\<close>

lemma fetchParameters_loop_frame:
  "files (snd (fetchParameters_loop env pm acc w)) = files w
   \<and> stdin (snd (fetchParameters_loop env pm acc w)) = stdin w"
proof (induction pm arbitrary: acc w)
  case Nil
  show ?case by simp
next
  case (Cons e pm)
  obtain k p where e: "e = (k, p)" by (cases e)
  show ?case
    unfolding e
    by (cases "fetch env p") (simp_all add: Cons.IH called_def say_def Let_def)
qed

lemma fetchParametersFromAzure_loop_frame:
  "files (snd (fetchParametersFromAzure_loop env pm acc w)) = files w
   \<and> stdin (snd (fetchParametersFromAzure_loop env pm acc w)) = stdin w"
proof (induction pm arbitrary: acc w)
  case Nil
  show ?case by simp
next
  case (Cons e pm)
  obtain k p where e: "e = (k, p)" by (cases e)
  show ?case
    unfolding e
    by (cases "fetch env p")
      (simp_all add: Cons.IH called_def say_def Let_def split: option.splits)
qed

lemma syncWith_in_sync:
  assumes "fst (fetchAll env paramMap w) = Inr ssmEnvVars"
    and "findDifferences paramMap localEnvVars ssmEnvVars = []"
  shows "syncWith fetchAll wrap env localEnvVars paramMap envFile force quotes w
     = Some (None, say InSync (snd (fetchAll env paramMap w)))"
  using assms by (cases "fetchAll env paramMap w") (simp add: syncWith_def)

text \<open>
  C4: when the fetch succeeds and the differences computed from its result are none, sync
  (for either backend) prints that all values are in sync after whatever the fetch
  printed, returns without an error, and leaves every file as it was: it writes nothing.
\<close>

theorem C4_in_sync_no_write:
  "(fst (fetchParameters env paramMap w) = Inr ssmEnvVars
      \<and> findDifferences paramMap localEnvVars ssmEnvVars = []
    \<longrightarrow> (\<exists>w'. syncParameters env localEnvVars paramMap envFile force quotes w = Some (None, w')
           \<and> files w' = files w
           \<and> stdout w' = stdout (snd (fetchParameters env paramMap w)) @ [InSync]))
   \<and> (fst (fetchParametersFromAzure env paramMap w) = Inr ssmEnvVars
      \<and> findDifferences paramMap localEnvVars ssmEnvVars = []
    \<longrightarrow> (\<exists>w'. syncParametersWithAzure env localEnvVars paramMap envFile force quotes w
             = Some (None, w')
           \<and> files w' = files w
           \<and> stdout w' = stdout (snd (fetchParametersFromAzure env paramMap w)) @ [InSync]))"
  using fetchParameters_loop_frame [of env paramMap "[]" w]
    fetchParametersFromAzure_loop_frame [of env paramMap "[]" w]
  by (auto simp: syncParameters_def syncParametersWithAzure_def syncWith_in_sync say_def
      fetchParameters_def fetchParametersFromAzure_def)

theorem C4_in_sync_no_write_witness:
  "fst (fetchParameters (remoteOf [(''/app/a'', ''1'')] (\<lambda>i. False))
          [(''A'', ''/app/a''), (''B'', ''/app/b'')]
          (emptyWorld\<lparr>files := [''.env'' \<mapsto> \<lparr>perm = 0x1A4, content = ''A=1'' @ [NL]\<rparr>]\<rparr>))
     = Inr [(''A'', ''1'')]
   \<and> fst (fetchParametersFromAzure (remoteOf [(''/app/a'', ''1'')] (\<lambda>i. False))
          [(''A'', ''/app/a''), (''B'', ''/app/b'')]
          (emptyWorld\<lparr>files := [''.env'' \<mapsto> \<lparr>perm = 0x1A4, content = ''A=1'' @ [NL]\<rparr>]\<rparr>))
     = Inr [(''A'', ''1'')]
   \<and> findDifferences [(''A'', ''/app/a''), (''B'', ''/app/b'')] [(''A'', ''1'')] [(''A'', ''1'')] = []
   \<and> (\<exists>w'. syncParameters (remoteOf [(''/app/a'', ''1'')] (\<lambda>i. False)) [(''A'', ''1'')]
              [(''A'', ''/app/a''), (''B'', ''/app/b'')] ''.env'' False False
              (emptyWorld\<lparr>files := [''.env'' \<mapsto> \<lparr>perm = 0x1A4, content = ''A=1'' @ [NL]\<rparr>]\<rparr>)
            = Some (None, w')
          \<and> files w' = [''.env'' \<mapsto> \<lparr>perm = 0x1A4, content = ''A=1'' @ [NL]\<rparr>]
          \<and> stdout w' = [WarnNotFound ''B'', InSync])
   \<and> (\<exists>w'. syncParametersWithAzure (remoteOf [(''/app/a'', ''1'')] (\<lambda>i. False)) [(''A'', ''1'')]
              [(''A'', ''/app/a''), (''B'', ''/app/b'')] ''.env'' False False
              (emptyWorld\<lparr>files := [''.env'' \<mapsto> \<lparr>perm = 0x1A4, content = ''A=1'' @ [NL]\<rparr>]\<rparr>)
            = Some (None, w')
          \<and> files w' = [''.env'' \<mapsto> \<lparr>perm = 0x1A4, content = ''A=1'' @ [NL]\<rparr>]
          \<and> stdout w' = [WarnNotFound ''B'', InSync])"
proof -
  let ?env = "remoteOf [(''/app/a'', ''1'')] (\<lambda>i. False)"
  let ?pm = "[(''A'', ''/app/a''), (''B'', ''/app/b'')]"
  let ?w = "emptyWorld\<lparr>files := [''.env'' \<mapsto> \<lparr>perm = 0x1A4, content = ''A=1'' @ [NL]\<rparr>]\<rparr>"
  have f: "fst (fetchParameters ?env ?pm ?w) = Inr [(''A'', ''1'')]"
    by code_simp
  have g: "fst (fetchParametersFromAzure ?env ?pm ?w) = Inr [(''A'', ''1'')]"
    by code_simp
  have o: "stdout (snd (fetchParameters ?env ?pm ?w)) = [WarnNotFound ''B'']"
    by code_simp
  have p: "stdout (snd (fetchParametersFromAzure ?env ?pm ?w)) = [WarnNotFound ''B'']"
    by code_simp
  have d: "findDifferences ?pm [(''A'', ''1'')] [(''A'', ''1'')] = []"
    by code_simp
  have w: "files ?w = [''.env'' \<mapsto> \<lparr>perm = 0x1A4, content = ''A=1'' @ [NL]\<rparr>]"
    by simp
  from C4_in_sync_no_write [of ?env ?pm ?w "[(''A'', ''1'')]" "[(''A'', ''1'')]" "''.env''" False False]
    f g o p d w
  show ?thesis by simp
qed

lemma expectedStores_Cons:
  "expectedStores envVars ((k, p) # pm) =
     (case map_of envVars k of None \<Rightarrow> [] | Some v \<Rightarrow> [Store p v]) @ expectedStores envVars pm"
  by (simp add: expectedStores_def)

lemma pushParameters_calls:
  "calls (snd (pushParameters env envVars pm w))
     = calls w @ untilFailure env (expectedStores envVars pm)"
proof (induction pm arbitrary: w)
  case Nil
  show ?case by (simp add: expectedStores_def)
next
  case (Cons e pm)
  obtain k p where e: "e = (k, p)" by (cases e)
  show ?case
    unfolding e
    by (cases "map_of envVars k")
      (auto simp: Cons.IH expectedStores_Cons called_def Let_def split: option.splits)
qed

lemma pushParametersToAzure_calls:
  "calls (snd (pushParametersToAzure env envVars pm w))
     = calls w @ untilFailure env (expectedStores envVars pm)"
proof (induction pm arbitrary: w)
  case Nil
  show ?case by (simp add: expectedStores_def)
next
  case (Cons e pm)
  obtain k p where e: "e = (k, p)" by (cases e)
  show ?case
    unfolding e
    by (cases "map_of envVars k")
      (auto simp: Cons.IH expectedStores_Cons called_def Let_def split: option.splits)
qed

lemma pushParameters_ok:
  "list_all (storeSucceeds env) (expectedStores envVars pm) \<Longrightarrow>
   fst (pushParameters env envVars pm w) = None
   \<and> fst (pushParametersToAzure env envVars pm w) = None"
proof (induction pm arbitrary: w)
  case Nil
  show ?case by simp
next
  case (Cons e pm)
  obtain k p where e: "e = (k, p)" by (cases e)
  from Cons.prems have "list_all (storeSucceeds env) (expectedStores envVars pm)"
    by (simp add: e expectedStores_Cons)
  note ih = Cons.IH [OF this]
  show ?case
    using Cons.prems unfolding e
    by (cases "map_of envVars k")
      (auto simp: ih expectedStores_Cons storeSucceeds_def Let_def)
qed

lemma untilFailure_all:
  "list_all (storeSucceeds env) cs \<Longrightarrow> untilFailure env cs = cs"
  by (induction env cs rule: untilFailure.induct) (auto simp: storeSucceeds_def)

lemma expectedStores_member:
  "Store identifier v \<in> set (expectedStores envVars pm)
   \<longleftrightarrow> (\<exists>name. (name, identifier) \<in> set pm \<and> map_of envVars name = Some v)"
  by (induction pm) (auto simp: expectedStores_def split: option.splits)

text \<open>
  C5, as stated, fails when a store call fails: the failure aborts the push, and the
  entries after it are not stored although the local snapshot contains their names. Here
  both \<open>A\<close> and \<open>B\<close> are mapped and present, the store fails at \<open>/a\<close>, and the only call
  issued is the one for \<open>A\<close>.
\<close>

theorem C5_push_stops_at_failure_counterexample:
  "expectedStores [(''A'', ''1''), (''B'', ''2'')] [(''A'', ''/a''), (''B'', ''/b'')]
     = [Store ''/a'' ''1'', Store ''/b'' ''2'']
   \<and> calls (snd (pushParameters (remoteOf [] (\<lambda>i. i = ''/a''))
        [(''A'', ''1''), (''B'', ''2'')] [(''A'', ''/a''), (''B'', ''/b'')] emptyWorld))
     = [Store ''/a'' ''1'']"
  by code_simp

text \<open>
  C5, amended: bulk push (for either backend) walks the mapping; an entry whose name the
  local snapshot lacks causes no store call, an entry whose name it contains causes a
  store of the local value at the entry's identifier, and the first store call that fails
  ends the push. So the store calls issued are the mapped entries whose name is present
  in the local snapshot, in iteration order, up to and including the first whose store
  fails: all of them, and push succeeds, when no store fails.
\<close>

theorem C5_push_store_calls:
  "calls (snd (pushParameters env envVars paramMap w))
     = calls w @ untilFailure env (expectedStores envVars paramMap)
   \<and> calls (snd (pushParametersToAzure env envVars paramMap w))
     = calls w @ untilFailure env (expectedStores envVars paramMap)
   \<and> (list_all (storeSucceeds env) (expectedStores envVars paramMap) \<longrightarrow>
        untilFailure env (expectedStores envVars paramMap) = expectedStores envVars paramMap
        \<and> fst (pushParameters env envVars paramMap w) = None
        \<and> fst (pushParametersToAzure env envVars paramMap w) = None)
   \<and> (Store identifier v \<in> set (expectedStores envVars paramMap)
        \<longleftrightarrow> (\<exists>name. (name, identifier) \<in> set paramMap \<and> map_of envVars name = Some v))"
  using pushParameters_calls pushParametersToAzure_calls pushParameters_ok untilFailure_all
    expectedStores_member
  by blast

theorem C5_push_store_calls_witness:
  "list_all (storeSucceeds (remoteOf [] (\<lambda>i. False)))
     (expectedStores [(''A'', ''1''), (''C'', ''3'')] [(''A'', ''/a''), (''B'', ''/b''), (''C'', ''/c'')])
   \<and> calls (snd (pushParameters (remoteOf [] (\<lambda>i. False)) [(''A'', ''1''), (''C'', ''3'')]
        [(''A'', ''/a''), (''B'', ''/b''), (''C'', ''/c'')] emptyWorld))
     = [Store ''/a'' ''1'', Store ''/c'' ''3'']
   \<and> calls (snd (pushParametersToAzure (remoteOf [] (\<lambda>i. False)) [(''A'', ''1''), (''C'', ''3'')]
        [(''A'', ''/a''), (''B'', ''/b''), (''C'', ''/c'')] emptyWorld))
     = [Store ''/a'' ''1'', Store ''/c'' ''3'']
   \<and> fst (pushParameters (remoteOf [] (\<lambda>i. False)) [(''A'', ''1''), (''C'', ''3'')]
        [(''A'', ''/a''), (''B'', ''/b''), (''C'', ''/c'')] emptyWorld) = None"
proof -
  let ?env = "remoteOf [] (\<lambda>i. False)"
  let ?l = "[(''A'', ''1''), (''C'', ''3'')]"
  let ?pm = "[(''A'', ''/a''), (''B'', ''/b''), (''C'', ''/c'')]"
  have e: "expectedStores ?l ?pm = [Store ''/a'' ''1'', Store ''/c'' ''3'']"
    by code_simp
  have a: "list_all (storeSucceeds ?env) (expectedStores ?l ?pm)"
    by code_simp
  have c: "calls emptyWorld = []"
    by (simp add: emptyWorld_def)
  from C5_push_store_calls [of ?env ?l ?pm emptyWorld] a e c show ?thesis
    by simp
qed

lemma loadParameterMapRaw_say [simp]:
  "loadParameterMapRaw env f (say m w) = loadParameterMapRaw env f w"
  by (simp add: loadParameterMapRaw_def readFile_def say_def split: option.splits)

lemma loadParameterMap_say [simp]:
  "loadParameterMap env f (say m w) = loadParameterMap env f w"
  by (simp add: loadParameterMap_def)

lemma say_frame [simp]: "calls (say m w) = calls w" "files (say m w) = files w"
  by (simp_all add: say_def)

lemma mainAzure_invalid_mapping:
  assumes "\<not> singleKeyPush fl" and "flagAzure fl" and "loadMapping env fl w = Inl e"
  shows "\<exists>w'. mainAzure env fl w = Some (1, w') \<and> calls w' = calls w \<and> files w' = files w"
  using assms
  by (auto simp: mainAzure_def loadMapping_def singleKeyPush_def split: sum.splits option.splits)

lemma mainAWS_invalid_mapping:
  assumes "\<not> singleKeyPush fl" and "\<not> flagAzure fl" and "loadMapping env fl w = Inl e"
  shows "\<exists>w'. mainAWS env fl w = Some (1, w') \<and> calls w' = calls w \<and> files w' = files w"
  using assms
  by (auto simp: mainAWS_def loadMapping_def singleKeyPush_def split: sum.splits option.splits)

lemma loadMapping_say [simp]: "loadMapping env fl (say m w) = loadMapping env fl w"
  by (simp add: loadMapping_def)

lemma main_invalid_mapping:
  assumes "\<not> singleKeyPush fl" and "loadMapping env fl w = Inl e"
  shows "\<exists>code w'. main env fl w = Some (code, w') \<and> calls w' = calls w \<and> files w' = files w
           \<and> (\<not> flagVersion fl \<longrightarrow> code = 1)"
proof (cases "flagAzure fl")
  case True
  from mainAzure_invalid_mapping [OF assms(1) True, of env "say (Print ''EnvChanter'') w" e]
    assms(2) True
  show ?thesis
    by (auto simp: main_def usage_def Let_def split: option.splits)
next
  case False
  from mainAWS_invalid_mapping [OF assms(1) False, of env "say (Print ''EnvChanter'') w" e]
    assms(2) False
  show ?thesis
    by (auto simp: main_def usage_def Let_def split: option.splits)
qed

lemma main_invalid_single_key:
  assumes "singleKeyPush fl" and "singleKeyInvalid fl"
  shows "\<exists>code w'. main env fl w = Some (code, w') \<and> calls w' = calls w \<and> files w' = files w
           \<and> (\<not> flagVersion fl \<longrightarrow> code = 1)"
  using assms
  by (auto simp: main_def usage_def Let_def mainAzure_def mainAWS_def singleKeyPush_def
      singleKeyInvalid_def split: option.splits if_splits)

text \<open>
  C6: an invocation that reads a mapping file (pull, sync and file-based push, for either
  backend) and whose mapping fails to load, to parse or to validate ends without any
  fetch or store call (and without touching a file), with exit code 1. The single-key
  push reads no mapping file; its own name and identifier are validated first, and when
  one of them is invalid it ends in the same way.
\<close>

theorem C6_validation_precedes_remote:
  "(\<not> singleKeyPush fl \<and> loadMapping env fl w = Inl e \<longrightarrow>
      (\<exists>code w'. main env fl w = Some (code, w') \<and> calls w' = calls w \<and> files w' = files w
         \<and> (\<not> flagVersion fl \<longrightarrow> code = 1)))
   \<and> (singleKeyPush fl \<and> singleKeyInvalid fl \<longrightarrow>
      (\<exists>code w'. main env fl w = Some (code, w') \<and> calls w' = calls w \<and> files w' = files w
         \<and> (\<not> flagVersion fl \<longrightarrow> code = 1)))"
  using main_invalid_mapping [of fl env w e] main_invalid_single_key [of fl env w]
  by blast

theorem C6_validation_precedes_remote_witness:
  "\<not> singleKeyPush (defaultFlags\<lparr>flagMap := ''map.json'', flagSync := True\<rparr>)
   \<and> loadMapping ((remoteOf [(''/x'', ''1'')] (\<lambda>i. False))\<lparr>unmarshal := \<lambda>d. Some [(''9BAD'', ''/x'')]\<rparr>)
        (defaultFlags\<lparr>flagMap := ''map.json'', flagSync := True\<rparr>)
        (emptyWorld\<lparr>files := [''map.json'' \<mapsto> \<lparr>perm = 0x1A4, content = ''{}''\<rparr>]\<rparr>)
      = Inl (InvalidParameterMap (InvalidEnvVarName ''9BAD'' EnvVarNameStartsWithDigit))
   \<and> (\<exists>w'. main ((remoteOf [(''/x'', ''1'')] (\<lambda>i. False))\<lparr>unmarshal := \<lambda>d. Some [(''9BAD'', ''/x'')]\<rparr>)
        (defaultFlags\<lparr>flagMap := ''map.json'', flagSync := True\<rparr>)
        (emptyWorld\<lparr>files := [''map.json'' \<mapsto> \<lparr>perm = 0x1A4, content = ''{}''\<rparr>]\<rparr>)
          = Some (1, w') \<and> calls w' = [])
   \<and> singleKeyPush (defaultFlags\<lparr>flagPush := True, flagKey := ''9BAD'', flagValue := ''v'',
        flagSsmPath := ''/x''\<rparr>)
   \<and> singleKeyInvalid (defaultFlags\<lparr>flagPush := True, flagKey := ''9BAD'', flagValue := ''v'',
        flagSsmPath := ''/x''\<rparr>)
   \<and> (\<exists>w'. main (remoteOf [] (\<lambda>i. False))
        (defaultFlags\<lparr>flagPush := True, flagKey := ''9BAD'', flagValue := ''v'',
           flagSsmPath := ''/x''\<rparr>) emptyWorld
          = Some (1, w') \<and> calls w' = [])"
proof -
  let ?env = "(remoteOf [(''/x'', ''1'')] (\<lambda>i. False))\<lparr>unmarshal := \<lambda>d. Some [(''9BAD'', ''/x'')]\<rparr>"
  let ?fl = "defaultFlags\<lparr>flagMap := ''map.json'', flagSync := True\<rparr>"
  let ?w = "emptyWorld\<lparr>files := [''map.json'' \<mapsto> \<lparr>perm = 0x1A4, content = ''{}''\<rparr>]\<rparr>"
  let ?fl2 = "defaultFlags\<lparr>flagPush := True, flagKey := ''9BAD'', flagValue := ''v'',
        flagSsmPath := ''/x''\<rparr>"
  have a: "\<not> singleKeyPush ?fl"
    by (simp add: singleKeyPush_def defaultFlags_def)
  have b: "loadMapping ?env ?fl ?w
      = Inl (InvalidParameterMap (InvalidEnvVarName ''9BAD'' EnvVarNameStartsWithDigit))"
    by code_simp
  have c: "singleKeyPush ?fl2"
    by (simp add: singleKeyPush_def defaultFlags_def)
  have d: "singleKeyInvalid ?fl2"
    by code_simp
  have v: "\<not> flagVersion ?fl" "\<not> flagVersion ?fl2" "calls ?w = []" "calls emptyWorld = []"
    by (simp_all add: defaultFlags_def emptyWorld_def)
  from C6_validation_precedes_remote [of ?fl ?env ?w]
    C6_validation_precedes_remote [of ?fl2 "remoteOf [] (\<lambda>i. False)" emptyWorld]
    a b c d v
  show ?thesis by auto
qed

lemma owner_only_created: "\<not> groupOrWorldAccess (0x180 AND NOT u)"
proof -
  have "(0x180 AND NOT u) AND 0x3F = (0x180 AND 0x3F) AND NOT u"
    by (simp add: ac_simps)
  also have "\<dots> = 0" by simp
  finally show ?thesis by (simp add: groupOrWorldAccess_def)
qed

lemma appendFile_perm:
  "files w f = Some x \<Longrightarrow> \<exists>y. files (appendFile f t w) f = Some y \<and> perm y = perm x"
  by (simp add: appendFile_def)

lemma writeLines_perm:
  "files w f = Some x \<Longrightarrow>
   \<exists>y. files (snd (writeLines env f n ls w)) f = Some y \<and> perm y = perm x"
proof (induction ls arbitrary: n w x)
  case Nil
  then show ?case by simp
next
  case (Cons l ls)
  from appendFile_perm [OF Cons.prems, of l] obtain y
    where y: "files (appendFile f l w) f = Some y" "perm y = perm x" by blast
  from Cons.IH [OF y(1), of "Suc n"] y(2) Cons.prems show ?case
    by auto
qed

lemma writeEnvFile_mode:
  assumes "fst (writeEnvFile env f envVars q w) = None"
  shows "\<exists>y. files (snd (writeEnvFile env f envVars q w)) f = Some y
           \<and> perm y = (case files w f of Some x \<Rightarrow> perm x | None \<Rightarrow> 0x180 AND NOT (umask w))"
proof -
  from assms have v: "validateFilePath f = None" and o: "\<not> openError env f"
    by (auto simp: writeEnvFile_def openFile_def split: option.splits if_splits)
  let ?w1 = "w\<lparr>files := (files w)(f \<mapsto>
             (case files w f of
                Some x \<Rightarrow> x\<lparr>content := []\<rparr>
              | None \<Rightarrow> \<lparr>perm = 0x180 AND NOT (umask w), content = []\<rparr>))\<rparr>"
  have w: "writeEnvFile env f envVars q w = writeLines env f 0 (envLines envVars q) ?w1"
    using v o by (simp add: writeEnvFile_def openFile_def)
  have "\<exists>x. files ?w1 f = Some x
     \<and> perm x = (case files w f of Some x \<Rightarrow> perm x | None \<Rightarrow> 0x180 AND NOT (umask w))"
    by (simp split: option.splits)
  then obtain x where x: "files ?w1 f = Some x"
    "perm x = (case files w f of Some x \<Rightarrow> perm x | None \<Rightarrow> 0x180 AND NOT (umask w))"
    by blast
  from writeLines_perm [OF x(1), of env 0 "envLines envVars q"] x(2) w show ?thesis
    by auto
qed

text \<open>
  C9 fails on the code for a file that exists. \<open>writeEnvFile\<close> passes the mode \<open>0600\<close> to
  \<open>os.OpenFile\<close>, which uses it only when it creates the file (\<open>writeEnvFile_mode\<close>,
  \<open>owner_only_created\<close>); an existing file is truncated and keeps its mode. Here \<open>.env\<close>
  exists with mode \<open>0644\<close>: after \<open>writeEnvFile\<close>, and after a forced sync that rewrites
  it with the value fetched, it holds the new content and is still readable by group and
  world. Sync always rewrites an existing file, the one it has just read.
\<close>

theorem C9_existing_file_keeps_mode:
  "fst (writeEnvFile (remoteOf [] (\<lambda>i. False)) ''.env'' [(''SECRET_KEY'', ''sensitive_data'')] False
        (emptyWorld\<lparr>files := [''.env'' \<mapsto> \<lparr>perm = 0x1A4, content = ''A=1'' @ [NL]\<rparr>]\<rparr>)) = None
   \<and> files (snd (writeEnvFile (remoteOf [] (\<lambda>i. False)) ''.env''
        [(''SECRET_KEY'', ''sensitive_data'')] False
        (emptyWorld\<lparr>files := [''.env'' \<mapsto> \<lparr>perm = 0x1A4, content = ''A=1'' @ [NL]\<rparr>]\<rparr>))) ''.env''
       = Some \<lparr>perm = 0x1A4, content = ''SECRET_KEY=sensitive_data'' @ [NL]\<rparr>
   \<and> map_option (\<lambda>(e, w'). (e, files w' ''.env''))
        (syncParameters (remoteOf [(''/app/a'', ''2'')] (\<lambda>i. False)) [(''A'', ''1'')]
           [(''A'', ''/app/a'')] ''.env'' True False
           (emptyWorld\<lparr>files := [''.env'' \<mapsto> \<lparr>perm = 0x1A4, content = ''A=1'' @ [NL]\<rparr>]\<rparr>))
       = Some (None, Some \<lparr>perm = 0x1A4, content = ''A=2'' @ [NL]\<rparr>)
   \<and> groupOrWorldAccess 0x1A4"
proof -
  have 1: "fst (writeEnvFile (remoteOf [] (\<lambda>i. False)) ''.env'' [(''SECRET_KEY'', ''sensitive_data'')] False
        (emptyWorld\<lparr>files := [''.env'' \<mapsto> \<lparr>perm = 0x1A4, content = ''A=1'' @ [NL]\<rparr>]\<rparr>)) = None"
    by code_simp
  have 2: "files (snd (writeEnvFile (remoteOf [] (\<lambda>i. False)) ''.env''
        [(''SECRET_KEY'', ''sensitive_data'')] False
        (emptyWorld\<lparr>files := [''.env'' \<mapsto> \<lparr>perm = 0x1A4, content = ''A=1'' @ [NL]\<rparr>]\<rparr>))) ''.env''
       = Some \<lparr>perm = 0x1A4, content = ''SECRET_KEY=sensitive_data'' @ [NL]\<rparr>"
    by code_simp
  have 3: "map_option (\<lambda>(e, w'). (e, files w' ''.env''))
        (syncParameters (remoteOf [(''/app/a'', ''2'')] (\<lambda>i. False)) [(''A'', ''1'')]
           [(''A'', ''/app/a'')] ''.env'' True False
           (emptyWorld\<lparr>files := [''.env'' \<mapsto> \<lparr>perm = 0x1A4, content = ''A=1'' @ [NL]\<rparr>]\<rparr>))
       = Some (None, Some \<lparr>perm = 0x1A4, content = ''A=2'' @ [NL]\<rparr>)"
    by code_simp
  have 4: "groupOrWorldAccess 0x1A4"
    by (simp add: groupOrWorldAccess_def)
  from 1 2 3 4 show ?thesis by simp
qed

end
